theory Spec2Isabelle
  imports Complex_Main
begin

section \<open>Conventions of the embedding\<close>

text \<open>
  The module \<^verbatim>\<open>soprano/calculate/nmr/utils.py\<close> works on numpy arrays of 64-bit floats.
  A one-dimensional array is a list, a two-dimensional array a list of rows.

  A finite float is idealised as a \<^typ>\<open>real\<close>: rounding, overflow and the sign of zero are
  not represented. The inputs of the module are finite, and an array that can only hold
  finite values is an array of reals (\<open>vector\<close>, \<open>matrix\<close>). Two places of the module
  divide by a number that can be zero: the normalisation of \<open>optimise_annotations\<close> divides
  by the range of the positions, and the broadening functions divide by twice the square
  of a broadening factor. numpy raises nothing there: it stores an infinity or nan (and
  emits a RuntimeWarning, which is not modelled) and the function goes on. From these
  places on a value is a \<open>float\<close>: a real, an infinity or nan, with the arithmetic of
  IEEE 754 on the values that are not real.

  Two kinds of event end a Python call, and each is a value of type \<open>error\<close>:
  \<^item> \<open>ValueError msg\<close>: the exception of that name, with its message;
  \<^item> \<open>IndexError\<close>: an index outside an array.

  The divisions of \<open>get_force_matrix\<close> and \<open>get_energy\<close> sit behind the test of the
  source that the divisor is above \<open>1e-8\<close>, and their quotients are reals. The embedding
  does not take the test on trust: these divisions (\<open>fdiv\<close>, \<open>np_divide\<close>) have the third
  outcome \<open>ZeroDivide\<close> for a divisor that is exactly zero, and it is proved below that
  the two functions never have that outcome.

  Library functions that the module calls but does not define are parameters of the
  embedding: \<open>np.argsort\<close> (its tie-breaking is not fixed by numpy's default sort kind),
  \<open>scipy.optimize.minimize\<close>, and the process-wide random source behind
  \<open>np.random.randn\<close>, given as the sequence \<open>rnd\<close> of the values it would draw.
\<close>

datatype error = ValueError string | IndexError | ZeroDivide

type_synonym vector = "real list"
type_synonym matrix = "real list list"
type_synonym mask = "bool list list"

text \<open>
  A float that need not be finite. Equality of two such values is identity, not the
  comparison \<open>==\<close> of floats: \<open>NaN = NaN\<close> holds here.
\<close>

datatype float = Fin real | PInf | NInf | NaN


section \<open>Arithmetic on floats that need not be finite\<close>

text \<open>
  \<open>a / b\<close> for two finite floats. A divisor that is zero is the positive zero in this
  module (a maximum minus a minimum, and a square), so the quotient has the sign of the
  dividend, and \<open>0 / 0\<close> is nan.
\<close>

definition float_div :: "real \<Rightarrow> real \<Rightarrow> float" where
  "float_div a b =
     (if b \<noteq> 0 then Fin (a / b) else if 0 < a then PInf else if a < 0 then NInf else NaN)"

text \<open>Negation, sum and difference.\<close>

fun float_neg :: "float \<Rightarrow> float" where
  "float_neg (Fin a) = Fin (- a)"
| "float_neg PInf = NInf"
| "float_neg NInf = PInf"
| "float_neg NaN = NaN"

fun float_add :: "float \<Rightarrow> float \<Rightarrow> float" where
  "float_add (Fin a) (Fin b) = Fin (a + b)"
| "float_add NaN v = NaN"
| "float_add u NaN = NaN"
| "float_add PInf NInf = NaN"
| "float_add NInf PInf = NaN"
| "float_add PInf v = PInf"
| "float_add u PInf = PInf"
| "float_add NInf v = NInf"
| "float_add u NInf = NInf"

definition float_sub :: "float \<Rightarrow> float \<Rightarrow> float" where
  "float_sub u v = float_add u (float_neg v)"

text \<open>The product of a float and a finite float, in either order.\<close>

fun float_times :: "float \<Rightarrow> real \<Rightarrow> float" where
  "float_times (Fin a) r = Fin (a * r)"
| "float_times NaN r = NaN"
| "float_times PInf r = (if 0 < r then PInf else if r < 0 then NInf else NaN)"
| "float_times NInf r = (if 0 < r then NInf else if r < 0 then PInf else NaN)"

text \<open>\<open>np.exp\<close>: the exponential of minus infinity is zero.\<close>

fun float_exp :: "float \<Rightarrow> float" where
  "float_exp (Fin a) = Fin (exp a)"
| "float_exp PInf = PInf"
| "float_exp NInf = Fin 0"
| "float_exp NaN = NaN"


section \<open>Array primitives\<close>

text \<open>Scalar division \<open>a / b\<close> behind the test of the source that \<open>b\<close> is not zero.\<close>

definition fdiv :: "real \<Rightarrow> real \<Rightarrow> error + real" where
  "fdiv a b = (if b = 0 then Inl ZeroDivide else Inr (a / b))"

text \<open>Elementwise division of two arrays of the same length, behind the same test.\<close>

definition np_divide :: "vector \<Rightarrow> vector \<Rightarrow> error + vector" where
  "np_divide a b =
     (if list_ex (\<lambda>d. d = 0) b then Inl ZeroDivide else Inr (map2 (/) a b))"

text \<open>
  Division of every element of an array by one scalar, which may be zero: the quotients
  are floats.
\<close>

definition np_divide_scalar :: "vector \<Rightarrow> real \<Rightarrow> float list" where
  "np_divide_scalar a d = map (\<lambda>x. float_div x d) a"

text \<open>
  \<open>a - b\<close> on one-dimensional arrays, with numpy's broadcasting: equal lengths subtract
  elementwise, an array of length one is stretched over the other, anything else raises.
\<close>

definition np_sub :: "vector \<Rightarrow> vector \<Rightarrow> error + vector" where
  "np_sub a b =
     (if length a = length b then Inr (map2 (-) a b)
      else if length b = 1 then Inr (map (\<lambda>x. x - hd b) a)
      else if length a = 1 then Inr (map (\<lambda>y. hd a - y) b)
      else Inl (ValueError ''operands could not be broadcast together''))"

text \<open>\<open>np.zeros((r, c))\<close>, \<open>np.eye(n, dtype=bool)\<close>, \<open>~m\<close> and \<open>np.logical_and\<close>.\<close>

definition zeros :: "nat \<Rightarrow> nat \<Rightarrow> matrix" where
  "zeros r c = replicate r (replicate c 0)"

definition eye :: "nat \<Rightarrow> mask" where
  "eye n = map (\<lambda>i. map (\<lambda>j. i = j) [0..<n]) [0..<n]"

definition logical_not :: "mask \<Rightarrow> mask" where
  "logical_not m = map (map Not) m"

definition logical_and :: "mask \<Rightarrow> mask \<Rightarrow> mask" where
  "logical_and a b = map2 (map2 (\<and>)) a b"

text \<open>
  Boolean-mask indexing. \<open>A[m]\<close> is the one-dimensional array of the entries of \<open>A\<close> where
  \<open>m\<close> is true, in row-major order; \<open>A[m] = vs\<close> stores the values \<open>vs\<close> at those places in
  the same order. \<open>np.sum(m)\<close> counts the true entries.
\<close>

definition count_true :: "bool list \<Rightarrow> nat" where
  "count_true m = length (filter id m)"

definition select :: "bool list \<Rightarrow> 'a list \<Rightarrow> 'a list" where
  "select m r = map snd (filter fst (zip m r))"

fun put :: "bool list \<Rightarrow> 'a list \<Rightarrow> 'a list \<Rightarrow> 'a list" where
  "put (True # m) (a # r) (v # vs) = v # put m r vs"
| "put (False # m) (a # r) vs = a # put m r vs"
| "put m r vs = r"

definition mask_sum :: "mask \<Rightarrow> nat" where
  "mask_sum m = sum_list (map count_true m)"

definition mask_select :: "mask \<Rightarrow> 'a list list \<Rightarrow> 'a list" where
  "mask_select m A = concat (map2 select m A)"

fun mask_put :: "mask \<Rightarrow> 'a list list \<Rightarrow> 'a list \<Rightarrow> 'a list list" where
  "mask_put (m # ms) (r # rs) vs = put m r vs # mask_put ms rs (drop (count_true m) vs)"
| "mask_put ms rs vs = rs"

text \<open>
  \<open>A[m] = vs\<close> for a value array of any length: as many values as true entries are stored
  in order, a single value is stored everywhere, any other length raises.
\<close>

definition mask_assign :: "mask \<Rightarrow> matrix \<Rightarrow> vector \<Rightarrow> error + matrix" where
  "mask_assign m A vs =
     (if length vs = mask_sum m then Inr (mask_put m A vs)
      else if length vs = 1 then Inr (mask_put m A (replicate (mask_sum m) (hd vs)))
      else Inl (ValueError ''NumPy boolean array indexing assignment cannot assign input values''))"

text \<open>\<open>np.random.randn(n)\<close>: the next \<open>n\<close> draws of the random source.\<close>

definition randn :: "(nat \<Rightarrow> real) \<Rightarrow> nat \<Rightarrow> vector" where
  "randn rnd n = map rnd [0..<n]"


section \<open>The force field\<close>

text \<open>
  \<open>get_force_matrix\<close>, statement by statement. The name \<open>off_diag_mask\<close> is assigned twice
  in the source; the second value (\<open>off_diag_mask\<close> below, the first being \<open>off_diag\<close>) is the
  one that both the repulsion and \<open>zero_off_diag_mask\<close> read.
\<close>

definition get_force_matrix ::
  "(nat \<Rightarrow> real) \<Rightarrow> vector \<Rightarrow> vector \<Rightarrow> real \<Rightarrow> real \<Rightarrow> error + matrix" where
  "get_force_matrix rnd positions positions_original C k =
     (let n = length positions;
          Fmat0 = zeros n n;
          displacement_matrix = map (\<lambda>a. map (\<lambda>b. a - b) positions) positions;
          diag_mask = eye n;
          off_diag = logical_not diag_mask;
          non_zero_displacements = map (map (\<lambda>d. \<bar>d\<bar> > 1 / 10 ^ 8)) displacement_matrix;
          off_diag_mask = logical_and off_diag non_zero_displacements;
          selected = mask_select off_diag_mask displacement_matrix
      in case np_divide (map (\<lambda>d. C * d) selected) (map (\<lambda>d. \<bar>d\<bar> ^ 4) selected) of
           Inl e \<Rightarrow> Inl e
         | Inr repulsion \<Rightarrow>
             let Fmat1 = mask_put off_diag_mask Fmat0
                           (map2 (+) (mask_select off_diag_mask Fmat0) repulsion);
                 zero_off_diag_mask =
                   logical_and off_diag_mask (logical_not non_zero_displacements);
                 Fmat2 = (if mask_sum zero_off_diag_mask > 0
                          then mask_put zero_off_diag_mask Fmat1
                                 (map (\<lambda>r. r * C * (1 / (5 / 100) ^ 2))
                                    (randn rnd (mask_sum zero_off_diag_mask)))
                          else Fmat1)
             in (case np_sub positions positions_original of
                   Inl e \<Rightarrow> Inl e
                 | Inr d \<Rightarrow> mask_assign diag_mask Fmat2 (map (\<lambda>x. - 2 * k * x) d)))"

text \<open>
  \<open>get_total_forces\<close> is defined twice in the module; Python keeps the second definition,
  the one with \<open>sign = -1\<close>. \<open>np.sum(Fmat, axis=1)\<close> sums each row.
\<close>

definition get_total_forces ::
  "(nat \<Rightarrow> real) \<Rightarrow> vector \<Rightarrow> vector \<Rightarrow> real \<Rightarrow> real \<Rightarrow> error + vector" where
  "get_total_forces rnd positions positions_original C k =
     (let sign = - 1
      in case get_force_matrix rnd positions positions_original C k of
           Inl e \<Rightarrow> Inl e
         | Inr F \<Rightarrow> Inr (map sum_list (map (map (\<lambda>v. sign * v)) F)))"

text \<open>
  \<open>get_energy\<close>: the two nested \<open>for\<close> loops run over \<open>range(len(positions))\<close> and
  \<open>range(i+1, len(positions))\<close> and add to \<open>coulomb_energy\<close>.
\<close>

fun coulomb_inner :: "vector \<Rightarrow> real \<Rightarrow> nat \<Rightarrow> nat list \<Rightarrow> real \<Rightarrow> error + real" where
  "coulomb_inner positions C i [] e = Inr e"
| "coulomb_inner positions C i (j # js) e =
     (if \<bar>positions ! i - positions ! j\<bar> > 1 / 10 ^ 8
      then (case fdiv C (\<bar>positions ! i - positions ! j\<bar> ^ 2) of
              Inl err \<Rightarrow> Inl err
            | Inr t \<Rightarrow> coulomb_inner positions C i js (e + t))
      else coulomb_inner positions C i js e)"

fun coulomb_outer :: "vector \<Rightarrow> real \<Rightarrow> nat list \<Rightarrow> real \<Rightarrow> error + real" where
  "coulomb_outer positions C [] e = Inr e"
| "coulomb_outer positions C (i # is) e =
     (case coulomb_inner positions C i [i + 1..<length positions] e of
        Inl err \<Rightarrow> Inl err
      | Inr e' \<Rightarrow> coulomb_outer positions C is e')"

definition get_energy :: "vector \<Rightarrow> vector \<Rightarrow> real \<Rightarrow> real \<Rightarrow> error + real" where
  "get_energy positions positions_original C k =
     (case coulomb_outer positions C [0..<length positions] 0 of
        Inl err \<Rightarrow> Inl err
      | Inr coulomb_energy \<Rightarrow>
          (case np_sub positions positions_original of
             Inl err \<Rightarrow> Inl err
           | Inr d \<Rightarrow>
               let spring_energy = (1 / 2) * k * sum_list (map (\<lambda>x. x ^ 2) d)
               in Inr (spring_energy + coulomb_energy)))"


section \<open>The layout optimiser\<close>

text \<open>
  Fancy indexing \<open>a[idx]\<close> with an index array, a single item \<open>a[i]\<close>, and the reductions
  \<open>np.max\<close>, \<open>np.min\<close>, which raise on an empty array.
\<close>

definition take_idx :: "'a list \<Rightarrow> nat list \<Rightarrow> error + 'a list" where
  "take_idx a idx =
     (if list_all (\<lambda>i. i < length a) idx then Inr (map (\<lambda>i. a ! i) idx) else Inl IndexError)"

definition item :: "'a list \<Rightarrow> nat \<Rightarrow> error + 'a" where
  "item a i = (if i < length a then Inr (a ! i) else Inl IndexError)"

definition np_max :: "vector \<Rightarrow> error + real" where
  "np_max a =
     (if a = [] then Inl (ValueError ''zero-size array to reduction operation maximum'')
      else Inr (Max (set a)))"

definition np_min :: "vector \<Rightarrow> error + real" where
  "np_min a =
     (if a = [] then Inl (ValueError ''zero-size array to reduction operation minimum'')
      else Inr (Min (set a)))"

text \<open>
  One entry of the \<open>constraints\<close> list handed to the minimiser: its \<open>'type'\<close> and its
  \<open>'fun'\<close>. A constraint function that returns a scalar returns a one-element array here.
\<close>

datatype constraint = Constraint (ctype: string) (cfun: "float list \<Rightarrow> error + float list")

text \<open>
  \<open>scipy.optimize.minimize(fun, x0, args=..., jac=..., options={'maxiter': ...}, tol=...,
  constraints=...)\<close>, reduced to the field \<open>res.x\<close> that the caller reads. Its arguments are
  the ones of the call in the source, in the order \<open>fun\<close>, \<open>x0\<close>, \<open>args\<close>, \<open>jac\<close>, \<open>maxiter\<close>,
  \<open>tol\<close>, \<open>constraints\<close>. \<open>fun\<close> and \<open>jac\<close> are the functions \<open>get_energy\<close> and
  \<open>get_total_forces\<close> themselves, which the embedding defines on arrays of reals; what the
  minimiser makes of them at an array with an entry that is not real is part of the
  parameter.
\<close>

type_synonym minimizer =
  "(vector \<Rightarrow> vector \<Rightarrow> real \<Rightarrow> real \<Rightarrow> error + real) \<Rightarrow> float list
     \<Rightarrow> float list \<times> real \<times> real
     \<Rightarrow> (vector \<Rightarrow> vector \<Rightarrow> real \<Rightarrow> real \<Rightarrow> error + vector) \<Rightarrow> int \<Rightarrow> real
     \<Rightarrow> constraint list \<Rightarrow> error + float list"

text \<open>
  The four constraints. \<open>x[-1]\<close> is the last item, \<open>x[0]\<close> the first; both raise on an
  empty array.
\<close>

definition pin_first :: "float list \<Rightarrow> float list \<Rightarrow> error + float list" where
  "pin_first positions_original x =
     (case item x 0 of
        Inl e \<Rightarrow> Inl e
      | Inr a \<Rightarrow> (case item positions_original 0 of
                   Inl e \<Rightarrow> Inl e
                 | Inr b \<Rightarrow> Inr [float_sub a b]))"

definition pin_last :: "float list \<Rightarrow> float list \<Rightarrow> error + float list" where
  "pin_last positions_original x =
     (case item x (length x - 1) of
        Inl e \<Rightarrow> Inl e
      | Inr a \<Rightarrow> (case item positions_original (length positions_original - 1) of
                   Inl e \<Rightarrow> Inl e
                 | Inr b \<Rightarrow> Inr [float_sub a b]))"

definition constraints :: "float list \<Rightarrow> constraint list" where
  "constraints positions_original =
     [Constraint ''eq'' (pin_first positions_original),
      Constraint ''eq'' (pin_last positions_original),
      Constraint ''ineq'' (\<lambda>x. Inr x),
      Constraint ''ineq'' (\<lambda>x. Inr (map (\<lambda>v. float_sub (Fin 1) v) x))]"

text \<open>
  \<open>optimise_annotations\<close>. \<open>argsort\<close> stands for \<open>np.argsort\<close>; its second use sorts the
  integer array \<open>order\<close>, whose entries are passed as the reals they denote.
  \<open>positions1\<close> is the sorted array \<open>positions[order]\<close>, of which \<open>positions_original\<close> is
  a copy; the normalisation is written twice, as in the source. The input is finite; the
  normalised arrays and everything after them are arrays of floats, and so is the result.
\<close>

definition optimise_annotations ::
  "(vector \<Rightarrow> nat list) \<Rightarrow> minimizer \<Rightarrow> (nat \<Rightarrow> real) \<Rightarrow> vector \<Rightarrow> int \<Rightarrow> real \<Rightarrow> real \<Rightarrow> real
     \<Rightarrow> error + float list" where
  "optimise_annotations argsort minimize rnd positions max_iters C k ftol =
     (if length positions < 3 then Inr (map Fin positions)
      else
        let order = argsort positions;
            inverted_order = argsort (map real order)
        in case take_idx positions order of
             Inl e \<Rightarrow> Inl e
           | Inr positions1 \<Rightarrow>
          (case np_max positions1 of
             Inl e \<Rightarrow> Inl e
           | Inr hi \<Rightarrow>
          (case np_min positions1 of
             Inl e \<Rightarrow> Inl e
           | Inr lo \<Rightarrow>
             let original_range = hi - lo;
                 min_pos = lo;
                 positions_n = np_divide_scalar (map (\<lambda>p. p - lo) positions1) original_range;
                 positions_original =
                   np_divide_scalar (map (\<lambda>p. p - min_pos) positions1) original_range
             in
          (case minimize get_energy positions_n (positions_original, C, k)
                  (get_total_forces rnd) max_iters ftol (constraints positions_original) of
             Inl e \<Rightarrow> Inl e
           | Inr new_pos_frac \<Rightarrow>
             let new_pos = map (\<lambda>v. float_add (float_times v original_range) (Fin min_pos))
                               new_pos_frac
             in take_idx new_pos inverted_order))))"


section \<open>Peaks and the contour map\<close>

text \<open>
  The dataclass \<open>Peak2D\<close>. Its fields \<open>x\<close> and \<open>y\<close> are named \<open>peak_x\<close> and \<open>peak_y\<close> here,
  so that \<open>x\<close> and \<open>y\<close> stay free for variables.
\<close>

record Peak2D =
  peak_x :: real
  peak_y :: real
  xlabel :: string
  ylabel :: string
  correlation_strength :: real
  color :: string
  idx_x :: "int option"
  idx_y :: "int option"

definition equivalent_to :: "Peak2D \<Rightarrow> Peak2D \<Rightarrow> real \<Rightarrow> real \<Rightarrow> real \<Rightarrow> bool \<Rightarrow> bool" where
  "equivalent_to self other xtol ytol corr_tol ignore_correlation_strength =
     (let x_match = \<bar>peak_x self - peak_x other\<bar> < xtol;
          y_match = \<bar>peak_y self - peak_y other\<bar> < ytol;
          corr_match = (if ignore_correlation_strength then True
                        else \<bar>correlation_strength self - correlation_strength other\<bar> < corr_tol)
      in x_match \<and> y_match \<and> corr_match)"

text \<open>\<open>str.lower()\<close> on ASCII text: the letters A to Z move to a to z.\<close>

definition lower_char :: "char \<Rightarrow> char" where
  "lower_char c =
     (let n = (of_char c :: nat) in if 65 \<le> n \<and> n \<le> 90 then char_of (n + 32) else c)"

definition lower :: "string \<Rightarrow> string" where
  "lower s = map lower_char s"

text \<open>The builtins \<open>min\<close> and \<open>max\<close> over a generator, which raise on an empty one.\<close>

definition py_min :: "real list \<Rightarrow> error + real" where
  "py_min xs = (if xs = [] then Inl (ValueError ''min() arg is an empty sequence'')
                else Inr (Min (set xs)))"

definition py_max :: "real list \<Rightarrow> error + real" where
  "py_max xs = (if xs = [] then Inl (ValueError ''max() arg is an empty sequence'')
                else Inr (Max (set xs)))"

text \<open>
  \<open>np.linspace(start, stop, num)\<close>: \<open>num\<close> evenly spaced samples, the last one set to
  \<open>stop\<close>; one sample is \<open>start\<close> alone; a negative \<open>num\<close> raises.
\<close>

definition linspace :: "real \<Rightarrow> real \<Rightarrow> int \<Rightarrow> error + vector" where
  "linspace start stop num =
     (if num < 0 then Inl (ValueError ''Number of samples must be non-negative'')
      else if num = 0 then Inr []
      else if num = 1 then Inr [start]
      else Inr (map (\<lambda>i. start + real i * ((stop - start) / real (nat num - 1)))
                    [0..<nat num - 1] @ [stop]))"

text \<open>
  \<open>np.meshgrid(x, y)\<close> has one row for every entry of \<open>y\<close> and one column for every entry
  of \<open>x\<close>; \<open>np.zeros_like\<close> keeps the shape.
\<close>

definition meshgrid :: "vector \<Rightarrow> vector \<Rightarrow> matrix \<times> matrix" where
  "meshgrid x y = (replicate (length y) x, map (\<lambda>v. replicate (length x) v) y)"

definition zeros_like :: "matrix \<Rightarrow> float list list" where
  "zeros_like A = map (map (\<lambda>v. Fin 0)) A"

text \<open>
  \<open>A + B\<close> on two-dimensional arrays, with numpy's broadcasting along each axis: equal
  lengths pair up, a length of one is stretched over the other, anything else raises.
  \<open>row_add\<close> is the sum of two rows, \<open>collect_rows\<close> gathers the rows and stops at the
  first one that raises.
\<close>

definition row_add :: "float list \<Rightarrow> float list \<Rightarrow> error + float list" where
  "row_add a b =
     (if length a = length b then Inr (map2 float_add a b)
      else if length b = 1 then Inr (map (\<lambda>u. float_add u (hd b)) a)
      else if length a = 1 then Inr (map (\<lambda>v. float_add (hd a) v) b)
      else Inl (ValueError ''operands could not be broadcast together''))"

fun collect_rows :: "(error + 'a) list \<Rightarrow> error + 'a list" where
  "collect_rows [] = Inr []"
| "collect_rows (r # rs) =
     (case r of
        Inl e \<Rightarrow> Inl e
      | Inr v \<Rightarrow> (case collect_rows rs of Inl e \<Rightarrow> Inl e | Inr vs \<Rightarrow> Inr (v # vs)))"

definition mat_add :: "float list list \<Rightarrow> float list list \<Rightarrow> error + float list list" where
  "mat_add A B =
     (if length A = length B then collect_rows (map2 row_add A B)
      else if length B = 1 then collect_rows (map (\<lambda>a. row_add a (hd B)) A)
      else if length A = 1 then collect_rows (map (\<lambda>b. row_add (hd A) b) B)
      else Inl (ValueError ''operands could not be broadcast together''))"

text \<open>
  The in-place sum \<open>Z += V\<close> is the same sum stored back into \<open>Z\<close>: it raises when the
  sum has not the shape of \<open>Z\<close>.
\<close>

definition same_shape :: "'a list list \<Rightarrow> 'b list list \<Rightarrow> bool" where
  "same_shape A B = list_all2 (\<lambda>a b. length a = length b) A B"

definition mat_iadd :: "float list list \<Rightarrow> float list list \<Rightarrow> error + float list list" where
  "mat_iadd Z V =
     (case mat_add Z V of
        Inl e \<Rightarrow> Inl e
      | Inr S \<Rightarrow> if same_shape S Z then Inr S
                 else Inl (ValueError ''non-broadcastable output operand''))"

text \<open>
  Division of every element of a two-dimensional array by one scalar, which may be zero.
\<close>

definition mat_divide_scalar :: "matrix \<Rightarrow> real \<Rightarrow> float list list" where
  "mat_divide_scalar A d = map (map (\<lambda>v. float_div v d)) A"

text \<open>The two broadening functions; the bodies are the two \<open>return\<close> expressions.\<close>

definition lorentzian ::
  "matrix \<Rightarrow> real \<Rightarrow> matrix \<Rightarrow> real \<Rightarrow> real \<Rightarrow> real \<Rightarrow> error + float list list" where
  "lorentzian X x0 Y y0 x_broadening y_broadening =
     (case mat_add
             (mat_divide_scalar (map (map (\<lambda>v. (v - x0) ^ 2)) X) (2 * x_broadening ^ 2))
             (mat_divide_scalar (map (map (\<lambda>v. (v - y0) ^ 2)) Y) (2 * y_broadening ^ 2)) of
        Inl e \<Rightarrow> Inl e
      | Inr S \<Rightarrow> Inr (map (map (\<lambda>v. float_exp (float_neg v))) S))"

definition gaussian ::
  "matrix \<Rightarrow> real \<Rightarrow> matrix \<Rightarrow> real \<Rightarrow> real \<Rightarrow> real \<Rightarrow> error + float list list" where
  "gaussian X x0 Y y0 x_broadening y_broadening =
     (case mat_add
             (mat_divide_scalar (map (map (\<lambda>v. (v - x0) ^ 2)) X) (2 * x_broadening ^ 2))
             (mat_divide_scalar (map (map (\<lambda>v. (v - y0) ^ 2)) Y) (2 * y_broadening ^ 2)) of
        Inl e \<Rightarrow> Inl e
      | Inr S \<Rightarrow> Inr (map (map (\<lambda>v. float_exp (float_neg v))) S))"

text \<open>
  The loop \<open>for peak in peaks\<close> of \<open>generate_contour_map\<close>, with \<open>Z\<close> as its state. The
  test of the broadening name sits inside the loop body, as in the source. The meshes \<open>X\<close>
  and \<open>Y\<close> hold finite values; the intensities \<open>Z\<close> are floats.
\<close>

fun add_peaks ::
  "string \<Rightarrow> real \<Rightarrow> real \<Rightarrow> matrix \<Rightarrow> matrix \<Rightarrow> Peak2D list \<Rightarrow> float list list
     \<Rightarrow> error + float list list" where
  "add_peaks broadening x_broadening y_broadening X Y [] Z = Inr Z"
| "add_peaks broadening x_broadening y_broadening X Y (peak # peaks) Z =
     (let x0 = peak_x peak; y0 = peak_y peak; strength = correlation_strength peak
      in if broadening = ''lorentzian''
         then (case lorentzian X x0 Y y0 x_broadening y_broadening of
                 Inl e \<Rightarrow> Inl e
               | Inr K \<Rightarrow> (case mat_iadd Z (map (map (\<lambda>v. float_times v strength)) K) of
                            Inl e \<Rightarrow> Inl e
                          | Inr Z' \<Rightarrow> add_peaks broadening x_broadening y_broadening X Y peaks Z'))
         else if broadening = ''gaussian''
         then (case gaussian X x0 Y y0 x_broadening y_broadening of
                 Inl e \<Rightarrow> Inl e
               | Inr K \<Rightarrow> (case mat_iadd Z (map (map (\<lambda>v. float_times v strength)) K) of
                            Inl e \<Rightarrow> Inl e
                          | Inr Z' \<Rightarrow> add_peaks broadening x_broadening y_broadening X Y peaks Z'))
         else Inl (ValueError (''Unknown broadening function: '' @ broadening)))"

text \<open>The bounds of one axis: from the peaks when no limits are given, else the limits.\<close>

definition axis_bounds :: "(real \<times> real) option \<Rightarrow> real list \<Rightarrow> error + real \<times> real" where
  "axis_bounds lims coords =
     (case lims of
        None \<Rightarrow> (case py_min coords of
                   Inl e \<Rightarrow> Inl e
                 | Inr lo \<Rightarrow> (case py_max coords of Inl e \<Rightarrow> Inl e | Inr hi \<Rightarrow> Inr (lo, hi)))
      | Some l \<Rightarrow> Inr l)"

definition generate_contour_map ::
  "Peak2D list \<Rightarrow> int \<Rightarrow> string \<Rightarrow> real \<Rightarrow> real \<Rightarrow> (real \<times> real) option \<Rightarrow> (real \<times> real) option
     \<Rightarrow> error + matrix \<times> matrix \<times> float list list" where
  "generate_contour_map peaks grid_size broadening0 x_broadening y_broadening xlims ylims =
     (let broadening = lower broadening0
      in case axis_bounds xlims (map peak_x peaks) of
           Inl e \<Rightarrow> Inl e
         | Inr (x_min, x_max) \<Rightarrow>
        (case axis_bounds ylims (map peak_y peaks) of
           Inl e \<Rightarrow> Inl e
         | Inr (y_min, y_max) \<Rightarrow>
        (case linspace (x_min - 5 * x_broadening) (x_max + 5 * x_broadening) grid_size of
           Inl e \<Rightarrow> Inl e
         | Inr x \<Rightarrow>
        (case linspace (y_min - 5 * y_broadening) (y_max + 5 * y_broadening) grid_size of
           Inl e \<Rightarrow> Inl e
         | Inr y \<Rightarrow>
           let (X, Y) = meshgrid x y;
               Z = zeros_like X
           in (case add_peaks broadening x_broadening y_broadening X Y peaks Z of
                 Inl e \<Rightarrow> Inl e
               | Inr Z' \<Rightarrow> Inr (X, Y, Z'))))))"


section \<open>Notions used to state the properties\<close>

text \<open>
  The table with entry \<open>F i j\<close> in row \<open>i\<close> and column \<open>j\<close>, for the row indices \<open>is\<close> and the
  column indices \<open>js\<close>. Every array that \<open>get_force_matrix\<close> builds is such a table.
\<close>

definition tabl :: "nat list \<Rightarrow> nat list \<Rightarrow> (nat \<Rightarrow> nat \<Rightarrow> 'a) \<Rightarrow> 'a list list" where
  "tabl is js F = map (\<lambda>i. map (\<lambda>j. F i j) js) is"

text \<open>
  The entry \<open>(i, j)\<close> that the force matrix has: the spring term on the diagonal, the
  repulsion for two positions more than \<open>1e-8\<close> apart, zero for two coincident positions.
\<close>

definition force_entry :: "vector \<Rightarrow> vector \<Rightarrow> real \<Rightarrow> real \<Rightarrow> nat \<Rightarrow> nat \<Rightarrow> real" where
  "force_entry ps os C k i j =
     (if i = j then - 2 * k * (ps ! i - os ! i)
      else if 1 / 10 ^ 8 < \<bar>ps ! i - ps ! j\<bar>
      then C * (ps ! i - ps ! j) / \<bar>ps ! i - ps ! j\<bar> ^ 4
      else 0)"

text \<open>
  The energy in the words of the specification: the sum over the unordered pairs \<open>i < j\<close>
  of \<open>C / |pos_i - pos_j|\<^sup>2\<close>, a pair at most \<open>1e-8\<close> apart contributing zero, plus half of
  \<open>k\<close> times the sum of the squared displacements from the original positions.
\<close>

definition pair_energy :: "vector \<Rightarrow> real \<Rightarrow> nat \<Rightarrow> nat \<Rightarrow> real" where
  "pair_energy ps C i j =
     (if 1 / 10 ^ 8 < \<bar>ps ! i - ps ! j\<bar> then C / \<bar>ps ! i - ps ! j\<bar> ^ 2 else 0)"

definition energy_spec :: "vector \<Rightarrow> vector \<Rightarrow> real \<Rightarrow> real \<Rightarrow> real" where
  "energy_spec ps os C k =
     (\<Sum>i = 0..<length ps. \<Sum>j = i + 1..<length ps. pair_energy ps C i j)
       + (1 / 2) * k * (\<Sum>i = 0..<length ps. (ps ! i - os ! i) ^ 2)"

text \<open>
  \<open>energy_partial ps os C k i g\<close>: the energy, as a function of position \<open>i\<close> alone with
  the other positions held at \<open>ps\<close>, is defined everywhere and has the derivative \<open>g\<close> at
  \<open>ps ! i\<close>; that is, \<open>g\<close> is the partial derivative \<open>dE/dpos_i\<close> at \<open>ps\<close>.
\<close>

definition energy_partial :: "vector \<Rightarrow> vector \<Rightarrow> real \<Rightarrow> real \<Rightarrow> nat \<Rightarrow> real \<Rightarrow> bool" where
  "energy_partial ps os C k i g =
     (\<exists>E. (\<forall>x. get_energy (ps[i := x]) os C k = Inr (E x))
          \<and> (E has_real_derivative g) (at (ps ! i)))"

text \<open>
  The sum of the inverse-cube repulsions that position \<open>i\<close> feels, without the constant
  \<open>C\<close>: over all other positions more than \<open>1e-8\<close> away. \<open>pull ps C i j\<close> is the derivative
  of the pair energy of \<open>i\<close> and \<open>j\<close> with respect to position \<open>i\<close>.
\<close>

definition repulsion_sum :: "vector \<Rightarrow> nat \<Rightarrow> real" where
  "repulsion_sum ps i =
     (\<Sum>j = 0..<length ps.
        if j = i \<or> \<bar>ps ! i - ps ! j\<bar> \<le> 1 / 10 ^ 8 then 0
        else (ps ! i - ps ! j) / \<bar>ps ! i - ps ! j\<bar> ^ 4)"

definition pull :: "vector \<Rightarrow> real \<Rightarrow> nat \<Rightarrow> nat \<Rightarrow> real" where
  "pull ps C i j = - 2 * C * (ps ! i - ps ! j) / \<bar>ps ! i - ps ! j\<bar> ^ 4"

text \<open>A random source for concrete evaluations: every draw is zero.\<close>

definition no_random :: "nat \<Rightarrow> real" where
  "no_random i = 0"

text \<open>
  What numpy promises of \<open>np.argsort(a)\<close>: a permutation of the indices of \<open>a\<close> that lists
  the entries of \<open>a\<close> in ascending order. One function with that property, for concrete
  evaluations, is the stable one.
\<close>

definition is_argsort :: "vector \<Rightarrow> nat list \<Rightarrow> bool" where
  "is_argsort a order =
     (length order = length a \<and> distinct order \<and> set order = {0..<length a}
      \<and> sorted (map (\<lambda>i. a ! i) order))"

definition argsort_stable :: "vector \<Rightarrow> nat list" where
  "argsort_stable a = map snd (sort_key fst (zip a [0..<length a]))"

text \<open>
  Two minimisers for concrete evaluations: one returns its starting point, one moves the
  second coordinate of its starting point up by a quarter.
\<close>

definition minimize_none :: minimizer where
  "minimize_none f x0 args jac max_iters tol cs = Inr x0"

definition minimize_shift :: minimizer where
  "minimize_shift f x0 args jac max_iters tol cs
     = Inr (x0[1 := float_add (x0 ! 1) (Fin (1 / 4))])"

text \<open>
  The starting point that \<open>optimise_annotations\<close> hands to the minimiser, for the sorting
  order \<open>order\<close>: the sorted positions moved and scaled by the least position and the range.
  \<open>rescaled\<close> is the way back from the minimiser's result to the original units.
\<close>

definition normalised :: "vector \<Rightarrow> nat list \<Rightarrow> float list" where
  "normalised ps order =
     map (\<lambda>p. float_div p (Max (set ps) - Min (set ps)))
         (map (\<lambda>p. p - Min (set ps)) (map (\<lambda>i. ps ! i) order))"

definition rescaled :: "vector \<Rightarrow> float list \<Rightarrow> float list" where
  "rescaled ps x =
     map (\<lambda>v. float_add (float_times v (Max (set ps) - Min (set ps))) (Fin (Min (set ps)))) x"

text \<open>The minimiser returns, and \<open>res.x\<close> has the shape of the starting point.\<close>

definition keeps_shape :: "minimizer \<Rightarrow> bool" where
  "keeps_shape minimize =
     (\<forall>f x0 args jac max_iters tol cs.
        \<exists>x. minimize f x0 args jac max_iters tol cs = Inr x \<and> length x = length x0)"

text \<open>
  \<open>x_spans X lo hi\<close>: the mesh \<open>X\<close> is not empty, every row of it starts at \<open>lo\<close> and ends at
  \<open>hi\<close>, and no entry lies outside the interval between the two. \<open>y_spans\<close> is the same
  for the columns of \<open>Y\<close>: the first row holds \<open>lo\<close> in every place, the last row \<open>hi\<close>, and
  neither row is empty.
\<close>

definition between :: "real \<Rightarrow> real \<Rightarrow> real \<Rightarrow> bool" where
  "between lo hi v = (min lo hi \<le> v \<and> v \<le> max lo hi)"

definition x_spans :: "matrix \<Rightarrow> real \<Rightarrow> real \<Rightarrow> bool" where
  "x_spans X lo hi =
     (X \<noteq> [] \<and> list_all (\<lambda>row. row \<noteq> [] \<and> hd row = lo \<and> last row = hi
                                \<and> list_all (between lo hi) row) X)"

definition y_spans :: "matrix \<Rightarrow> real \<Rightarrow> real \<Rightarrow> bool" where
  "y_spans Y lo hi =
     (Y \<noteq> [] \<and> hd Y \<noteq> [] \<and> last Y \<noteq> []
      \<and> list_all (\<lambda>v. v = lo) (hd Y) \<and> list_all (\<lambda>v. v = hi) (last Y)
      \<and> list_all (list_all (between lo hi)) Y)"

text \<open>
  The limits of one axis as the claim words them: the supplied limits when given, the
  least and the greatest peak coordinate otherwise.
\<close>

definition axis_limits :: "(real \<times> real) option \<Rightarrow> real list \<Rightarrow> real \<times> real" where
  "axis_limits lims coords =
     (case lims of Some l \<Rightarrow> l | None \<Rightarrow> (Min (set coords), Max (set coords)))"

text \<open>A peak at the given coordinates, with the default strength and colour.\<close>

definition peak_at :: "real \<Rightarrow> real \<Rightarrow> Peak2D" where
  "peak_at a b =
     \<lparr>peak_x = a, peak_y = b, xlabel = ''H1'', ylabel = ''C1'', correlation_strength = 1,
      color = ''C0'', idx_x = None, idx_y = None\<rparr>"


section \<open>Boolean-mask indexing on tables\<close>

lemma count_true_simps [simp]:
  "count_true [] = 0"
  "count_true (b # m) = (if b then Suc (count_true m) else count_true m)"
  by (simp_all add: count_true_def)

lemma select_simps [simp]:
  "select [] r = []"
  "select m [] = []"
  "select (b # m) (x # r) = (if b then x # select m r else select m r)"
  by (simp_all add: select_def)

lemma length_select_map: "length (select (map M js) (map A js)) = count_true (map M js)"
  by (induction js) auto

lemma put_all_False: "put (map (\<lambda>j. False) js) (map A js) vs = map A js"
  by (induction js) auto

lemma put_row_tab:
  "put (map M js) (map A js)
       (map2 g (select (map M js) (map A js)) (map f (select (map M js) (map D js))) @ rest)
     = map (\<lambda>j. if M j then g (A j) (f (D j)) else A j) js"
  by (induction js) auto

lemma mask_select_tabl_Cons:
  "mask_select (tabl (i # is) js M) (tabl (i # is) js A)
     = select (map (M i) js) (map (A i) js) @ mask_select (tabl is js M) (tabl is js A)"
  by (simp add: mask_select_def tabl_def)

lemma mask_put_tabl:
  "mask_put (tabl is js M) (tabl is js A)
     (map2 g (mask_select (tabl is js M) (tabl is js A))
             (map f (mask_select (tabl is js M) (tabl is js D))) @ rest)
   = tabl is js (\<lambda>i j. if M i j then g (A i j) (f (D i j)) else A i j)"
proof (induction "is" arbitrary: rest)
  case Nil
  show ?case by (simp add: tabl_def)
next
  case (Cons i "is")
  let ?sa = "select (map (M i) js) (map (A i) js)"
  let ?sd = "select (map (M i) js) (map (D i) js)"
  let ?ra = "mask_select (tabl is js M) (tabl is js A)"
  let ?rd = "mask_select (tabl is js M) (tabl is js D)"
  have len: "length ?sa = length (map f ?sd)"
    by (simp add: length_select_map)
  have split: "map2 g (?sa @ ?ra) (map f (?sd @ ?rd))
                 = map2 g ?sa (map f ?sd) @ map2 g ?ra (map f ?rd)"
    using len by simp
  have cnt: "length (map2 g ?sa (map f ?sd)) = count_true (map (M i) js)"
    by (simp add: length_select_map)
  have row: "put (map (M i) js) (map (A i) js)
                 (map2 g ?sa (map f ?sd) @ (map2 g ?ra (map f ?rd) @ rest))
       = map (\<lambda>j. if M i j then g (A i j) (f (D i j)) else A i j) js"
    by (rule put_row_tab)
  have "mask_put (tabl (i # is) js M) (tabl (i # is) js A)
          (map2 g (?sa @ ?ra) (map f (?sd @ ?rd)) @ rest)
        = map (\<lambda>j. if M i j then g (A i j) (f (D i j)) else A i j) js
          # mask_put (tabl is js M) (tabl is js A) (map2 g ?ra (map f ?rd) @ rest)"
    unfolding split using row cnt by (simp add: tabl_def)
  then show ?case
    by (simp add: mask_select_tabl_Cons Cons.IH) (simp add: tabl_def)
qed

lemma mask_sum_all_False: "mask_sum (tabl is js (\<lambda>i j. False)) = 0"
  by (induction "is") (auto simp: mask_sum_def tabl_def count_true_def)

lemma logical_not_tabl: "logical_not (tabl is js F) = tabl is js (\<lambda>i j. \<not> F i j)"
  by (simp add: logical_not_def tabl_def)

lemma logical_and_tabl:
  "logical_and (tabl is js F) (tabl is js G) = tabl is js (\<lambda>i j. F i j \<and> G i j)"
  by (simp add: logical_and_def tabl_def zip_map_map zip_same_conv_map o_def)

lemma map_map_tabl: "map (map h) (tabl is js F) = tabl is js (\<lambda>i j. h (F i j))"
  by (simp add: tabl_def)

lemma tabl_cong:
  "(\<And>i j. i \<in> set is \<Longrightarrow> j \<in> set js \<Longrightarrow> F i j = G i j) \<Longrightarrow> tabl is js F = tabl is js G"
  by (simp add: tabl_def)

lemma eye_tabl: "eye n = tabl [0..<n] [0..<n] (\<lambda>i j. i = j)"
  by (simp add: eye_def tabl_def)

lemma zeros_tabl: "zeros n n = tabl [0..<n] [0..<n] (\<lambda>i j. 0)"
  by (simp add: zeros_def tabl_def map_replicate_const)

lemma map_by_index: "map f xs = map (\<lambda>j. f (xs ! j)) [0..<length xs]"
  by (rule nth_equalityI) simp_all

lemma displacement_tabl:
  "map (\<lambda>a. map (\<lambda>b. a - b) ps) ps
     = tabl [0..<length ps] [0..<length ps] (\<lambda>i j. ps ! i - ps ! j)"
proof -
  have "map (\<lambda>a. map (\<lambda>b. a - b) ps) ps
      = map (\<lambda>i. map (\<lambda>b. ps ! i - b) ps) [0..<length ps]"
    by (rule map_by_index)
  also have "\<dots> = map (\<lambda>i. map (\<lambda>j. ps ! i - ps ! j) [0..<length ps]) [0..<length ps]"
    by (subst map_by_index [of "\<lambda>b. _ - b" ps]) (rule refl)
  finally show ?thesis by (simp add: tabl_def)
qed

lemma count_true_no_hit: "i \<notin> set js \<Longrightarrow> count_true (map (\<lambda>j. i = j) js) = 0"
  by (induction js) simp_all

lemma count_true_eq_row:
  "distinct js \<Longrightarrow> i \<in> set js \<Longrightarrow> count_true (map (\<lambda>j. i = j) js) = 1"
proof (induction js)
  case Nil
  then show ?case by simp
next
  case (Cons j js)
  show ?case
  proof (cases "i = j")
    case True
    with Cons.prems have "j \<notin> set js" by simp
    then have "count_true (map (\<lambda>x. j = x) js) = 0" by (rule count_true_no_hit)
    with True show ?thesis by simp
  next
    case False
    with Cons have "count_true (map (\<lambda>j. i = j) js) = 1" by simp
    with False show ?thesis by simp
  qed
qed

lemma put_no_hit: "i \<notin> set js \<Longrightarrow> put (map (\<lambda>j. i = j) js) (map A js) vs = map A js"
  by (induction js) simp_all

lemma map_no_hit: "i \<notin> set js \<Longrightarrow> map (\<lambda>j. if i = j then v else A j) js = map A js"
  by (induction js) simp_all

lemma put_eq_row:
  "distinct js \<Longrightarrow>
   put (map (\<lambda>j. i = j) js) (map A js) (v # vs) = map (\<lambda>j. if i = j then v else A j) js"
proof (induction js)
  case Nil
  show ?case by simp
next
  case (Cons j js)
  show ?case
  proof (cases "i = j")
    case True
    with Cons.prems have nj: "j \<notin> set js" by simp
    have "put (map (\<lambda>x. j = x) js) (map A js) vs = map A js"
      using nj by (rule put_no_hit)
    moreover have "map (\<lambda>x. if j = x then v else A x) js = map A js"
      using nj by (rule map_no_hit)
    ultimately show ?thesis using True by simp
  next
    case False
    with Cons show ?thesis by simp
  qed
qed

lemma mask_put_eq_tabl:
  "distinct js \<Longrightarrow> set is \<subseteq> set js \<Longrightarrow> length vs = length is \<Longrightarrow>
   mask_put (tabl is js (\<lambda>i j. i = j)) (tabl is js A) vs
     = map2 (\<lambda>i v. map (\<lambda>j. if i = j then v else A i j) js) is vs"
proof (induction "is" arbitrary: vs)
  case Nil
  then show ?case by (simp add: tabl_def)
next
  case (Cons i "is")
  then obtain v vs' where vs: "vs = v # vs'" by (cases vs) auto
  from Cons.prems have c: "count_true (map (\<lambda>j. i = j) js) = 1"
    by (intro count_true_eq_row) auto
  have "mask_put (tabl is js (\<lambda>i j. i = j)) (tabl is js A) vs'
     = map2 (\<lambda>i v. map (\<lambda>j. if i = j then v else A i j) js) is vs'"
    using Cons.prems vs by (intro Cons.IH) auto
  then show ?case
    using Cons.prems(1) c by (simp add: vs tabl_def put_eq_row)
qed

lemma mask_sum_eye: "mask_sum (eye n) = n"
proof -
  have "map count_true (eye n) = map (\<lambda>i. 1) [0..<n]"
    by (simp add: eye_def count_true_eq_row)
  then show ?thesis by (simp add: mask_sum_def sum_list_replicate map_replicate_const)
qed

lemma mask_put_eye:
  assumes len: "length vs = n"
  shows "mask_put (eye n) (tabl [0..<n] [0..<n] A) vs
           = tabl [0..<n] [0..<n] (\<lambda>i j. if i = j then vs ! i else A i j)"
proof -
  have "map2 (\<lambda>i v. map (\<lambda>j. if i = j then v else A i j) [0..<n]) [0..<n] vs
      = map (\<lambda>i. map (\<lambda>j. if i = j then vs ! i else A i j) [0..<n]) [0..<n]"
    using len by (intro nth_equalityI) simp_all
  then show ?thesis
    using len by (simp add: eye_tabl mask_put_eq_tabl) (simp add: tabl_def)
qed

lemma set_select_map:
  "x \<in> set (select (map M js) (map D js)) \<Longrightarrow> \<exists>j\<in>set js. M j \<and> x = D j"
  by (induction js) (auto split: if_splits)

lemma set_mask_select_tabl:
  "x \<in> set (mask_select (tabl is js M) (tabl is js D))
     \<Longrightarrow> \<exists>i\<in>set is. \<exists>j\<in>set js. M i j \<and> x = D i j"
  by (induction "is")
     (auto simp: mask_select_tabl_Cons dest: set_select_map, simp add: mask_select_def tabl_def)

lemma np_divide_no_zero:
  "(\<And>x. x \<in> set xs \<Longrightarrow> g x \<noteq> 0) \<Longrightarrow>
   np_divide (map f xs) (map g xs) = Inr (map (\<lambda>x. f x / g x) xs)"
  by (auto simp: np_divide_def list_ex_iff zip_map_map zip_same_conv_map)

lemma mask_assign_exact:
  "length vs = mask_sum m \<Longrightarrow> mask_assign m A vs = Inr (mask_put m A vs)"
  by (simp add: mask_assign_def)


section \<open>The force matrix in closed form\<close>

text \<open>
  For positions and originals of one length the call returns, and the matrix is the table
  of \<open>force_entry\<close>. The mask \<open>zero_off_diag_mask\<close> is the conjunction of the reassigned
  \<open>off_diag_mask\<close>, which already demands a displacement above \<open>1e-8\<close>, with the negation of
  that demand: it is false everywhere, and the random values are never stored.
\<close>

lemma get_force_matrix_closed:
  assumes len: "length os = length ps"
  shows "get_force_matrix rnd ps os C k
           = Inr (tabl [0..<length ps] [0..<length ps] (force_entry ps os C k))"
proof -
  let ?n = "length ps"
  let ?I = "[0..<?n]"
  let ?D = "tabl ?I ?I (\<lambda>i j. ps ! i - ps ! j)"
  let ?M = "tabl ?I ?I (\<lambda>i j. i \<noteq> j \<and> 1 / 10 ^ 8 < \<bar>ps ! i - ps ! j\<bar>)"
  let ?Z = "tabl ?I ?I (\<lambda>i j. 0::real)"
  let ?f = "\<lambda>d::real. C * d / \<bar>d\<bar> ^ 4"
  let ?F1 = "tabl ?I ?I (\<lambda>i j. if i \<noteq> j \<and> 1 / 10 ^ 8 < \<bar>ps ! i - ps ! j\<bar>
                                  then 0 + ?f (ps ! i - ps ! j) else 0)"
  have off: "logical_and (logical_not (eye ?n)) (map (map (\<lambda>d. \<bar>d\<bar> > 1 / 10 ^ 8)) ?D) = ?M"
    by (simp add: eye_tabl logical_not_tabl map_map_tabl logical_and_tabl)
  have zero: "logical_and ?M (logical_not (map (map (\<lambda>d. \<bar>d\<bar> > 1 / 10 ^ 8)) ?D))
                = tabl ?I ?I (\<lambda>i j. False)"
    by (simp add: logical_not_tabl map_map_tabl logical_and_tabl)
  have nz: "\<bar>x\<bar> ^ 4 \<noteq> 0" if "x \<in> set (mask_select ?M ?D)" for x
  proof -
    from set_mask_select_tabl [OF that] obtain i j
      where "1 / 10 ^ 8 < \<bar>ps ! i - ps ! j\<bar>" "x = ps ! i - ps ! j" by blast
    then have "x \<noteq> 0" by auto
    then show ?thesis by simp
  qed
  have rep: "np_divide (map (\<lambda>d. C * d) (mask_select ?M ?D))
                       (map (\<lambda>d. \<bar>d\<bar> ^ 4) (mask_select ?M ?D))
               = Inr (map ?f (mask_select ?M ?D))"
    using nz by (rule np_divide_no_zero)
  have F1: "mask_put ?M ?Z (map2 (+) (mask_select ?M ?Z) (map ?f (mask_select ?M ?D))) = ?F1"
    using mask_put_tabl [of ?I ?I _ _ "(+)" ?f _ "[]"] by simp
  have sub: "np_sub ps os = Inr (map2 (-) ps os)"
    using len by (simp add: np_sub_def)
  let ?v = "map (\<lambda>x. - 2 * k * x) (map2 (-) ps os)"
  have lv: "length ?v = ?n" using len by simp
  have diag: "mask_assign (eye ?n) ?F1 ?v
        = Inr (tabl ?I ?I (\<lambda>i j. if i = j then ?v ! i
               else if i \<noteq> j \<and> 1 / 10 ^ 8 < \<bar>ps ! i - ps ! j\<bar>
                    then 0 + ?f (ps ! i - ps ! j) else 0))"
  proof -
    have "mask_assign (eye ?n) ?F1 ?v = Inr (mask_put (eye ?n) ?F1 ?v)"
      by (rule mask_assign_exact) (simp only: lv mask_sum_eye)
    then show ?thesis by (simp only: mask_put_eye [OF lv])
  qed
  have fin: "tabl ?I ?I (\<lambda>i j. if i = j then ?v ! i
               else if i \<noteq> j \<and> 1 / 10 ^ 8 < \<bar>ps ! i - ps ! j\<bar>
                    then 0 + ?f (ps ! i - ps ! j) else 0)
        = tabl ?I ?I (force_entry ps os C k)"
    using len by (intro tabl_cong) (simp add: force_entry_def)
  show ?thesis
    unfolding get_force_matrix_def Let_def
    by (simp only: zeros_tabl displacement_tabl off zero rep mask_sum_all_False F1 sub diag fin
          sum.case less_irrefl if_False)
qed

lemma tabl_nth:
  "i < n \<Longrightarrow> j < n \<Longrightarrow> tabl [0..<n] [0..<n] F ! i ! j = F i j"
  by (simp add: tabl_def)

lemma tabl_shape:
  "length (tabl [0..<n] [0..<n] F) = n" "i < n \<Longrightarrow> length (tabl [0..<n] [0..<n] F ! i) = n"
  by (simp_all add: tabl_def)

text \<open>
  Claim C5. For positions and originals of one length \<open>n\<close>, \<open>get_force_matrix\<close> returns an
  \<open>n\<close>-by-\<open>n\<close> matrix whose diagonal entry \<open>i\<close> is \<open>-2 k (pos_i - original_i)\<close> and whose
  off-diagonal entry \<open>(i, j)\<close> is \<open>C (pos_i - pos_j) / |pos_i - pos_j|\<^sup>4\<close> whenever the two
  positions are more than \<open>1e-8\<close> apart.
\<close>

theorem force_matrix_entries:
  assumes "length os = length ps"
  shows "\<exists>F. get_force_matrix rnd ps os C k = Inr F \<and> length F = length ps
          \<and> (\<forall>i<length ps. length (F ! i) = length ps
                \<and> F ! i ! i = - 2 * k * (ps ! i - os ! i)
                \<and> (\<forall>j<length ps. i \<noteq> j \<and> 1 / 10 ^ 8 < \<bar>ps ! i - ps ! j\<bar>
                      \<longrightarrow> F ! i ! j = C * (ps ! i - ps ! j) / \<bar>ps ! i - ps ! j\<bar> ^ 4))"
  using get_force_matrix_closed [OF assms, of rnd C k]
  by (simp add: tabl_nth tabl_shape force_entry_def)

theorem force_matrix_entries_witness:
  "\<exists>F. get_force_matrix no_random [0, 1 / 2, 1] [0, 1 / 4, 1] 1 1 = Inr F
       \<and> length F = 3 \<and> length (F ! 1) = 3
       \<and> F ! 1 ! 1 = - (1 / 2) \<and> F ! 0 ! 1 = - 8 \<and> F ! 1 ! 0 = 8 \<and> F ! 0 ! 2 = - 1"
proof -
  from force_matrix_entries [of "[0, 1 / 4, 1]" "[0, 1 / 2, 1]" no_random 1 1]
  obtain F where F: "get_force_matrix no_random [0, 1 / 2, 1] [0, 1 / 4, 1] 1 1 = Inr F"
      "length F = 3"
      "\<forall>i<3. length (F ! i) = 3 \<and> F ! i ! i = - 2 * 1 * ([0, 1 / 2, 1] ! i - [0, 1 / 4, 1] ! i)
          \<and> (\<forall>j<3. i \<noteq> j \<and> 1 / 10 ^ 8 < \<bar>[0, 1 / 2, 1] ! i - [0, 1 / 2, 1] ! j :: real\<bar>
                \<longrightarrow> F ! i ! j = 1 * ([0, 1 / 2, 1] ! i - [0, 1 / 2, 1] ! j)
                                  / \<bar>[0, 1 / 2, 1] ! i - [0, 1 / 2, 1] ! j\<bar> ^ 4)"
    by auto
  from F(3) have r1: "length (F ! 1) = 3" "F ! 1 ! 1 = - (1 / 2)"
    by (auto dest!: spec [of _ 1])
  from F(3) have "F ! 0 ! 1 = - 8"
    by (auto dest!: spec [of _ 0] dest: spec [of _ 1] simp: power4_eq_xxxx)
  moreover from F(3) have "F ! 1 ! 0 = 8"
    by (auto dest!: spec [of _ 1] dest: spec [of _ 0] simp: power4_eq_xxxx)
  moreover from F(3) have "F ! 0 ! 2 = - 1"
    by (auto dest!: spec [of _ 0] dest: spec [of _ 2])
  ultimately show ?thesis using F(1,2) r1 by auto
qed


section \<open>Coincident positions in the force matrix\<close>

lemma zero_off_diag_mask_empty:
  "mask_sum (logical_and
       (logical_and (logical_not (eye (length ps)))
          (map (map (\<lambda>d. \<bar>d\<bar> > 1 / 10 ^ 8)) (map (\<lambda>a. map (\<lambda>b. a - b) ps) ps)))
       (logical_not (map (map (\<lambda>d. \<bar>d\<bar> > 1 / 10 ^ 8))
                      (map (\<lambda>a. map (\<lambda>b. a - b) ps) ps)))) = 0"
proof -
  have "logical_and
       (logical_and (logical_not (eye (length ps)))
          (map (map (\<lambda>d. \<bar>d\<bar> > 1 / 10 ^ 8)) (map (\<lambda>a. map (\<lambda>b. a - b) ps) ps)))
       (logical_not (map (map (\<lambda>d. \<bar>d\<bar> > 1 / 10 ^ 8)) (map (\<lambda>a. map (\<lambda>b. a - b) ps) ps)))
     = tabl [0..<length ps] [0..<length ps] (\<lambda>i j. False)"
    by (simp add: displacement_tabl eye_tabl logical_not_tabl map_map_tabl logical_and_tabl)
  then show ?thesis by (simp only: mask_sum_all_False)
qed

text \<open>The result of \<open>get_force_matrix\<close> is the same for every random source.\<close>

lemma random_source_unused:
  "get_force_matrix rnd ps os C k = get_force_matrix rnd' ps os C k"
  unfolding get_force_matrix_def Let_def
  by (simp only: zero_off_diag_mask_empty less_irrefl if_False)

text \<open>Every off-diagonal entry of two positions at most \<open>1e-8\<close> apart is zero.\<close>

lemma coincident_entry_zero:
  assumes "length os = length ps" "i < length ps" "j < length ps" "i \<noteq> j"
    and "\<bar>ps ! i - ps ! j\<bar> \<le> 1 / 10 ^ 8"
  shows "\<exists>F. get_force_matrix rnd ps os C k = Inr F \<and> F ! i ! j = 0"
  using get_force_matrix_closed [OF assms(1), of rnd C k] assms(2-)
  by (simp add: tabl_nth force_entry_def)

text \<open>
  Claim C2 says that the entry of two coincident positions is drawn from the random
  source and is not left at zero. The code at the positions \<open>[0, 0, 1]\<close> with the default
  constants: for every random source \<open>rnd\<close> the entries \<open>(0, 1)\<close> and \<open>(1, 0)\<close> of the two
  coincident positions are zero.
\<close>

theorem coincident_force_is_zero:
  "get_force_matrix rnd [0, 0, 1] [0, 0, 1] (1 / 100) (1 / 100000)
     = Inr [[0, 0, - (1 / 100)], [0, 0, - (1 / 100)], [1 / 100, 1 / 100, 0]]"
  by (simp add: get_force_matrix_def Let_def zeros_def eye_def logical_not_def logical_and_def
        mask_select_def np_divide_def np_sub_def mask_assign_def mask_sum_def randn_def upt_rec)


section \<open>The energy\<close>

lemma coulomb_inner_sum:
  "coulomb_inner ps C i js e = Inr (e + (\<Sum>j\<leftarrow>js. pair_energy ps C i j))"
proof (induction js arbitrary: e)
  case Nil
  show ?case by simp
next
  case (Cons j js)
  show ?case
  proof (cases "1 / 10 ^ 8 < \<bar>ps ! i - ps ! j\<bar>")
    case True
    then have "\<bar>ps ! i - ps ! j\<bar> ^ 2 \<noteq> 0" by auto
    with True show ?thesis by (simp add: Cons.IH fdiv_def pair_energy_def)
  next
    case False
    then show ?thesis by (simp add: Cons.IH pair_energy_def)
  qed
qed

lemma coulomb_outer_sum:
  "coulomb_outer ps C is e
     = Inr (e + (\<Sum>i\<leftarrow>is. \<Sum>j\<leftarrow>[i + 1..<length ps]. pair_energy ps C i j))"
  by (induction "is" arbitrary: e) (simp_all add: coulomb_inner_sum)

lemma spring_sum:
  "length os = length ps \<Longrightarrow>
   sum_list (map (\<lambda>x. x ^ 2) (map2 (-) ps os)) = (\<Sum>i = 0..<length ps. (ps ! i - os ! i) ^ 2)"
  by (simp add: sum_list_sum_nth)

lemma get_energy_closed:
  assumes "length os = length ps"
  shows "get_energy ps os C k = Inr (energy_spec ps os C k)"
proof -
  have "np_sub ps os = Inr (map2 (-) ps os)"
    using assms by (simp add: np_sub_def)
  then show ?thesis
    using spring_sum [OF assms]
    by (simp add: get_energy_def coulomb_outer_sum energy_spec_def
          interv_sum_list_conv_sum_set_nat del: upt_Suc)
qed

lemma pair_energy_nonneg: "0 \<le> C \<Longrightarrow> 0 \<le> pair_energy ps C i j"
  by (simp add: pair_energy_def)

lemma energy_spec_nonneg: "0 \<le> C \<Longrightarrow> 0 \<le> k \<Longrightarrow> 0 \<le> energy_spec ps os C k"
  unfolding energy_spec_def
  by (intro add_nonneg_nonneg sum_nonneg mult_nonneg_nonneg pair_energy_nonneg) simp_all

text \<open>
  Claim C6. For positions and originals of one length and positive \<open>C\<close> and \<open>k\<close>,
  \<open>get_energy\<close> returns the sum over the pairs \<open>i < j\<close> of \<open>C / |pos_i - pos_j|\<^sup>2\<close> (zero for a
  pair at most \<open>1e-8\<close> apart) plus \<open>k / 2\<close> times the sum of the \<open>(pos_i - original_i)\<^sup>2\<close>,
  and that value is not negative.
\<close>

theorem energy_is_pair_sum_plus_spring:
  assumes "length os = length ps" "0 < C" "0 < k"
  shows "get_energy ps os C k = Inr (energy_spec ps os C k) \<and> 0 \<le> energy_spec ps os C k"
  using get_energy_closed [OF assms(1)] energy_spec_nonneg [of C k ps os] assms(2,3) by simp

theorem energy_is_pair_sum_plus_spring_witness:
  "length [0, 1 / 4, 1 :: real] = length [0, 1 / 2, 1 :: real] \<and> (0 :: real) < 1
   \<and> get_energy [0, 1 / 2, 1] [0, 1 / 4, 1] 1 1 = Inr (289 / 32)
   \<and> energy_spec [0, 1 / 2, 1] [0, 1 / 4, 1] 1 1 = 289 / 32"
proof -
  have e: "get_energy [0, 1 / 2, 1] [0, 1 / 4, 1] 1 1 = Inr (289 / 32)"
    by (simp add: get_energy_def fdiv_def np_sub_def upt_rec power2_eq_square)
  from energy_is_pair_sum_plus_spring [of "[0, 1 / 4, 1]" "[0, 1 / 2, 1]" 1 1]
  have "get_energy [0, 1 / 2, 1] [0, 1 / 4, 1] 1 1
          = Inr (energy_spec [0, 1 / 2, 1] [0, 1 / 4, 1] 1 1)"
    by simp
  with e show ?thesis by simp
qed


section \<open>The trivial case of the optimiser\<close>

text \<open>
  Claim C7. For an input of fewer than three positions (the empty one included),
  \<open>optimise_annotations\<close> returns the input unchanged, whatever the other arguments: the
  result is the array of the input values, each of them finite.
\<close>

theorem fewer_than_three_unchanged:
  "length positions < 3 \<Longrightarrow>
   optimise_annotations argsort minimize rnd positions max_iters C k ftol
     = Inr (map Fin positions)"
  by (simp add: optimise_annotations_def)

theorem fewer_than_three_unchanged_witness:
  "length [5, 1 :: real] < 3
   \<and> optimise_annotations argsort_stable minimize_shift no_random [5, 1] 10000
        (1 / 100) (1 / 100000) (1 / 1000) = Inr [Fin 5, Fin 1]
   \<and> optimise_annotations argsort_stable minimize_shift no_random [] 10000
        (1 / 100) (1 / 100000) (1 / 1000) = Inr []"
  using fewer_than_three_unchanged [of "[5, 1]" argsort_stable minimize_shift no_random
          10000 "1 / 100" "1 / 100000" "1 / 1000"]
    fewer_than_three_unchanged [of "[]" argsort_stable minimize_shift no_random
          10000 "1 / 100" "1 / 100000" "1 / 1000"]
  by simp


section \<open>The total forces and the gradient of the energy\<close>

lemma sum_list_negate: "sum_list (map (\<lambda>v. - 1 * v) row) = - sum_list (row :: real list)"
  by (induction row) simp_all

text \<open>
  The first half of claim C1 holds: the vector returned by \<open>get_total_forces\<close> is the
  negated row sum of the matrix returned by \<open>get_force_matrix\<close>, and the call fails exactly
  when that one fails.
\<close>

lemma total_forces_negated_row_sum:
  "get_total_forces rnd ps os C k
     = (case get_force_matrix rnd ps os C k of
          Inl e \<Rightarrow> Inl e
        | Inr F \<Rightarrow> Inr (map (\<lambda>row. - sum_list row) F))"
  by (simp add: get_total_forces_def sum_list_negate o_def split: sum.splits)

text \<open>
  The second half relates the vector to the gradient of \<open>get_energy\<close>. With the positions
  \<open>[0, 1]\<close>, the originals \<open>[0, 1]\<close>, \<open>C = 1\<close> and \<open>k = 0\<close> the energy along the first position
  is \<open>1 / (x - 1)\<^sup>2\<close> near \<open>0\<close>, with derivative \<open>2\<close> there; the first total force is \<open>1\<close>.
\<close>

lemma total_forces_example:
  "get_total_forces no_random [0, 1] [0, 1] 1 0 = Inr [1, - 1]"
  by (simp add: get_total_forces_def get_force_matrix_def Let_def zeros_def eye_def logical_not_def
        logical_and_def mask_select_def np_divide_def np_sub_def mask_assign_def mask_sum_def
        randn_def upt_rec)

lemma energy_along_first:
  "get_energy ([0, 1][0 := x]) [0, 1] 1 0
     = Inr (if 1 / 10 ^ 8 < \<bar>x - 1\<bar> then 1 / \<bar>x - 1\<bar> ^ 2 else 0)"
  by (simp add: get_energy_def fdiv_def np_sub_def upt_rec)

lemma energy_slope_example:
  "((\<lambda>x. if 1 / 10 ^ 8 < \<bar>x - 1\<bar> then 1 / \<bar>x - 1\<bar> ^ 2 else 0) has_real_derivative 2) (at 0)"
proof -
  have base: "((\<lambda>x::real. 1 / (x - 1) ^ 2) has_real_derivative 2) (at 0)"
    by (auto intro!: derivative_eq_intros simp: power2_eq_square)
  show ?thesis
  proof (rule has_field_derivative_transform_within_open [OF base, of "{- (1 / 2)<..<1 / 2}"])
    show "open {- (1 / 2 :: real)<..<1 / 2}" by simp
    show "(0::real) \<in> {- (1 / 2)<..<1 / 2}" by simp
    fix x :: real
    assume "x \<in> {- (1 / 2)<..<1 / 2}"
    then have "1 / 10 ^ 8 < \<bar>x - 1\<bar>" by auto
    then show "1 / (x - 1) ^ 2 = (if 1 / 10 ^ 8 < \<bar>x - 1\<bar> then 1 / \<bar>x - 1\<bar> ^ 2 else 0)"
      by simp
  qed
qed

lemma energy_partial_example: "energy_partial [0, 1] [0, 1] 1 0 0 2"
  unfolding energy_partial_def
proof (intro exI conjI allI)
  fix x :: real
  show "get_energy ([0, 1][0 := x]) [0, 1] 1 0
          = Inr (if 1 / 10 ^ 8 < \<bar>x - 1\<bar> then 1 / \<bar>x - 1\<bar> ^ 2 else 0)"
    by (rule energy_along_first)
next
  have "[0, 1 :: real] ! 0 = 0" by simp
  with energy_slope_example
  show "((\<lambda>x. if 1 / 10 ^ 8 < \<bar>x - 1\<bar> then 1 / \<bar>x - 1\<bar> ^ 2 else 0) has_real_derivative 2)
          (at ([0, 1] ! 0))"
    by (simp only:)
qed

lemma energy_partial_unique:
  assumes "energy_partial ps os C k i g" "energy_partial ps os C k i h"
  shows "g = h"
proof -
  from assms(1) obtain E where E: "\<And>x. get_energy (ps[i := x]) os C k = Inr (E x)"
      "(E has_real_derivative g) (at (ps ! i))"
    unfolding energy_partial_def by blast
  from assms(2) obtain E' where E': "\<And>x. get_energy (ps[i := x]) os C k = Inr (E' x)"
      "(E' has_real_derivative h) (at (ps ! i))"
    unfolding energy_partial_def by blast
  have "E' = E"
  proof
    fix x
    from E(1) [of x] E'(1) [of x] show "E' x = E x" by simp
  qed
  with E(2) E'(2) show ?thesis by (auto dest: DERIV_unique)
qed

text \<open>
  Claim C1 says that the total forces are, componentwise, the negative gradient of
  \<open>get_energy\<close>. The code at the input above: the first total force is \<open>1\<close> and the partial
  derivative of the energy by the first position is \<open>2\<close>. The partial derivative is not
  the negated total force \<open>-1\<close>, as the claim has it; and it is not the total force \<open>1\<close>
  either, although \<open>optimise_annotations\<close> hands \<open>get_total_forces\<close> to the minimiser as the
  gradient \<open>jac\<close> of \<open>get_energy\<close>.
\<close>

theorem total_forces_not_negative_gradient:
  "get_total_forces no_random [0, 1] [0, 1] 1 0 = Inr [1, - 1]
   \<and> energy_partial [0, 1] [0, 1] 1 0 0 2
   \<and> \<not> energy_partial [0, 1] [0, 1] 1 0 0 (- ([1, - 1] ! 0))
   \<and> \<not> energy_partial [0, 1] [0, 1] 1 0 0 ([1, - 1] ! 0)"
proof -
  have "\<not> energy_partial [0, 1] [0, 1] 1 0 0 (- ([1, - 1] ! 0))"
  proof
    assume "energy_partial [0, 1] [0, 1] 1 0 0 (- ([1, - 1] ! 0))"
    from energy_partial_unique [OF this energy_partial_example] show False by simp
  qed
  moreover have "\<not> energy_partial [0, 1] [0, 1] 1 0 0 ([1, - 1] ! 0)"
  proof
    assume "energy_partial [0, 1] [0, 1] 1 0 0 ([1, - 1] ! 0)"
    from energy_partial_unique [OF this energy_partial_example] show False by simp
  qed
  ultimately show ?thesis
    using total_forces_example energy_partial_example by simp
qed


text \<open>
  The two vectors in general, on every input. Component \<open>i\<close> of the total forces is
  \<open>2 k (pos_i - original_i) - C R_i\<close>, with \<open>R_i\<close> the repulsion sum of position \<open>i\<close>. Where
  position \<open>i\<close> is more than \<open>1e-8\<close> away from every other position, the partial derivative
  of the energy is \<open>k (pos_i - original_i) - 2 C R_i\<close>. So the total forces are the gradient
  of the energy taken with the constants \<open>C / 2\<close> and \<open>2 k\<close>.
\<close>

lemma sum_split_at:
  fixes h :: "nat \<Rightarrow> real"
  assumes "i < n"
  shows "sum h {0..<n} = sum h {0..<i} + h i + sum h {Suc i..<n}"
proof -
  have "sum h {0..<n} = sum h {0..<i} + sum h {i..<n}"
    using assms by (simp add: sum.atLeastLessThan_concat)
  also have "sum h {i..<n} = h i + sum h {Suc i..<n}"
    using assms by (rule sum.atLeast_Suc_lessThan)
  finally show ?thesis by simp
qed

lemma total_forces_closed:
  assumes len: "length os = length ps" and i: "i < length ps"
  shows "\<exists>ts. get_total_forces rnd ps os C k = Inr ts \<and> length ts = length ps
            \<and> ts ! i = 2 * k * (ps ! i - os ! i) - C * repulsion_sum ps i"
proof -
  let ?n = "length ps"
  let ?F = "tabl [0..<?n] [0..<?n] (force_entry ps os C k)"
  let ?ts = "map (\<lambda>row. - sum_list row) ?F"
  have F: "get_force_matrix rnd ps os C k = Inr ?F"
    using len by (rule get_force_matrix_closed)
  have ts: "get_total_forces rnd ps os C k = Inr ?ts"
    by (simp add: get_total_forces_def F sum_list_negate o_def)
  have row: "sum_list (?F ! i) = (\<Sum>j = 0..<?n. force_entry ps os C k i j)"
    using i by (simp add: tabl_def interv_sum_list_conv_sum_set_nat del: upt_Suc)
  let ?g = "\<lambda>j. if j = i \<or> \<bar>ps ! i - ps ! j\<bar> \<le> 1 / 10 ^ 8 then 0
                 else (ps ! i - ps ! j) / \<bar>ps ! i - ps ! j\<bar> ^ 4"
  have "force_entry ps os C k i j = (if j = i then - 2 * k * (ps ! i - os ! i) else 0) + C * ?g j"
    for j by (auto simp: force_entry_def)
  then have "(\<Sum>j = 0..<?n. force_entry ps os C k i j)
      = (\<Sum>j = 0..<?n. if j = i then - 2 * k * (ps ! i - os ! i) else 0) + C * (\<Sum>j = 0..<?n. ?g j)"
    by (simp add: sum.distrib sum_distrib_left)
  also have "(\<Sum>j = 0..<?n. if j = i then - 2 * k * (ps ! i - os ! i) else 0)
      = - 2 * k * (ps ! i - os ! i)"
    using i by simp
  finally have "sum_list (?F ! i) = - 2 * k * (ps ! i - os ! i) + C * repulsion_sum ps i"
    unfolding row repulsion_sum_def .
  then have "?ts ! i = 2 * k * (ps ! i - os ! i) - C * repulsion_sum ps i"
    using i by (simp add: tabl_def)
  then show ?thesis using ts by (intro exI [of _ ?ts]) (simp add: tabl_def)
qed


lemma inverse_square_slope_value:
  fixes d C :: real
  shows "(0 * d ^ 2 - C * (2 * d)) / (d ^ 2 * d ^ 2) = - 2 * C * d / \<bar>d\<bar> ^ 4"
  by (simp add: power4_eq_xxxx power2_eq_square)

lemma inverse_square_slope:
  fixes p q C :: real
  assumes ne: "p - q \<noteq> 0"
  shows "((\<lambda>x. C / (x - q) ^ 2) has_real_derivative - 2 * C * (p - q) / \<bar>p - q\<bar> ^ 4) (at p)"
proof -
  have sq: "((\<lambda>x. (x - q) ^ 2) has_real_derivative 2 * (p - q)) (at p)"
    by (auto intro!: derivative_eq_intros)
  have nz: "(p - q) ^ 2 \<noteq> 0" using ne by simp
  have "((\<lambda>x. C / (x - q) ^ 2) has_real_derivative
           (0 * (p - q) ^ 2 - C * (2 * (p - q))) / ((p - q) ^ 2 * (p - q) ^ 2)) (at p)"
    by (rule DERIV_divide [OF DERIV_const sq nz])
  then show ?thesis by (simp only: inverse_square_slope_value)
qed

lemma pair_slope:
  fixes p q C :: real
  assumes gap: "1 / 10 ^ 8 < \<bar>p - q\<bar>"
  shows "((\<lambda>x. if 1 / 10 ^ 8 < \<bar>x - q\<bar> then C / \<bar>x - q\<bar> ^ 2 else 0)
           has_real_derivative - 2 * C * (p - q) / \<bar>p - q\<bar> ^ 4) (at p)"
proof -
  from gap have ne: "p - q \<noteq> 0" by auto
  show ?thesis
  proof (rule has_field_derivative_transform_within_open
                [OF inverse_square_slope [OF ne], where S = "{x. 1 / 10 ^ 8 < \<bar>x - q\<bar>}"])
    show "open {x. 1 / 10 ^ 8 < \<bar>x - q\<bar>}"
      by (intro open_Collect_less continuous_intros)
    show "p \<in> {x. 1 / 10 ^ 8 < \<bar>x - q\<bar>}" using gap by simp
    fix x assume "x \<in> {x. 1 / 10 ^ 8 < \<bar>x - q\<bar>}"
    then show "C / (x - q) ^ 2 = (if 1 / 10 ^ 8 < \<bar>x - q\<bar> then C / \<bar>x - q\<bar> ^ 2 else 0)"
      by simp
  qed
qed

lemma pair_energy_slope:
  assumes i: "i < length ps" and ab: "a < b" "b < length ps"
    and gaps: "\<And>j. j < length ps \<Longrightarrow> j \<noteq> i \<Longrightarrow> 1 / 10 ^ 8 < \<bar>ps ! i - ps ! j\<bar>"
  shows "((\<lambda>x. pair_energy (ps[i := x]) C a b) has_real_derivative
            (if a = i then pull ps C i b else if b = i then pull ps C i a else 0)) (at (ps ! i))"
proof (cases "a = i")
  case True
  with ab have bi: "b \<noteq> i" by simp
  have "(\<lambda>x. pair_energy (ps[i := x]) C a b)
      = (\<lambda>x. if 1 / 10 ^ 8 < \<bar>x - ps ! b\<bar> then C / \<bar>x - ps ! b\<bar> ^ 2 else 0)"
    using True bi i by (simp add: pair_energy_def fun_eq_iff)
  then show ?thesis
    using pair_slope [OF gaps [OF ab(2) bi], of C] True by (simp add: pull_def)
next
  case False
  show ?thesis
  proof (cases "b = i")
    case True
    from ab True have a: "a < length ps" by simp
    have "(\<lambda>x. pair_energy (ps[i := x]) C a b)
        = (\<lambda>x. if 1 / 10 ^ 8 < \<bar>x - ps ! a\<bar> then C / \<bar>x - ps ! a\<bar> ^ 2 else 0)"
      using True False i by (simp add: pair_energy_def fun_eq_iff abs_minus_commute)
    then show ?thesis
      using pair_slope [OF gaps [OF a False], of C] True False by (simp add: pull_def)
  next
    case bi: False
    have "(\<lambda>x. pair_energy (ps[i := x]) C a b) = (\<lambda>x. pair_energy ps C a b)"
      using False bi by (simp add: pair_energy_def fun_eq_iff)
    then show ?thesis using False bi by simp
  qed
qed

lemma pull_double_sum:
  fixes g :: "nat \<Rightarrow> real"
  assumes i: "i < n"
  shows "(\<Sum>a = 0..<n. \<Sum>b = a + 1..<n. if a = i then g b else if b = i then g a else 0)
           = (\<Sum>j = 0..<n. if j = i then 0 else g j)"
proof -
  let ?inner = "\<lambda>a. \<Sum>b = a + 1..<n. if a = i then g b else if b = i then g a else 0"
  have below: "?inner a = g a" if "a < i" for a
  proof -
    have "?inner a = (\<Sum>b = a + 1..<n. if b = i then g a else 0)"
      using that by (intro sum.cong) auto
    also have "\<dots> = g a" using that i by simp
    finally show ?thesis .
  qed
  have above: "?inner a = 0" if "i < a" for a
    using that by (intro sum.neutral) auto
  have at: "?inner i = sum g {Suc i..<n}" by simp
  have "sum ?inner {0..<n} = sum ?inner {0..<i} + ?inner i + sum ?inner {Suc i..<n}"
    using i by (rule sum_split_at)
  also have "sum ?inner {0..<i} = sum g {0..<i}"
    by (intro sum.cong refl below) simp
  also have "sum ?inner {Suc i..<n} = 0"
    by (intro sum.neutral ballI above) simp
  finally have lhs: "sum ?inner {0..<n} = sum g {0..<i} + sum g {Suc i..<n}"
    unfolding at by simp
  let ?h = "\<lambda>j. if j = i then 0 else g j"
  have "sum ?h {0..<n} = sum ?h {0..<i} + ?h i + sum ?h {Suc i..<n}"
    using i by (rule sum_split_at)
  also have "sum ?h {0..<i} = sum g {0..<i}" by (intro sum.cong) auto
  also have "sum ?h {Suc i..<n} = sum g {Suc i..<n}" by (intro sum.cong) auto
  finally have "sum ?h {0..<n} = sum g {0..<i} + sum g {Suc i..<n}" by simp
  with lhs show ?thesis by simp
qed


lemma spring_slope:
  assumes i: "i < length ps"
  shows "((\<lambda>x. (1 / 2) * k * (\<Sum>a = 0..<length ps. ((ps[i := x]) ! a - os ! a) ^ 2))
            has_real_derivative k * (ps ! i - os ! i)) (at (ps ! i))"
proof -
  let ?n = "length ps"
  have each: "((\<lambda>x. ((ps[i := x]) ! a - os ! a) ^ 2) has_real_derivative
                 (if a = i then 2 * (ps ! i - os ! i) else 0)) (at (ps ! i))"
    if "a \<in> {0..<?n}" for a
  proof (cases "a = i")
    case True
    have "(\<lambda>x. ((ps[i := x]) ! a - os ! a) ^ 2) = (\<lambda>x. (x - os ! i) ^ 2)"
      using True i by (simp add: fun_eq_iff)
    moreover have "((\<lambda>x. (x - os ! i) ^ 2) has_real_derivative 2 * (ps ! i - os ! i)) (at (ps ! i))"
      by (auto intro!: derivative_eq_intros)
    ultimately show ?thesis using True by simp
  next
    case False
    then have "(\<lambda>x. ((ps[i := x]) ! a - os ! a) ^ 2) = (\<lambda>x. (ps ! a - os ! a) ^ 2)"
      by (simp add: fun_eq_iff)
    then show ?thesis using False by simp
  qed
  have "((\<lambda>x. \<Sum>a = 0..<?n. ((ps[i := x]) ! a - os ! a) ^ 2) has_real_derivative
           (\<Sum>a = 0..<?n. if a = i then 2 * (ps ! i - os ! i) else 0)) (at (ps ! i))"
    by (rule DERIV_sum) (rule each)
  moreover have "(\<Sum>a = 0..<?n. if a = i then 2 * (ps ! i - os ! i) else 0) = 2 * (ps ! i - os ! i)"
    using i by simp
  ultimately have "((\<lambda>x. \<Sum>a = 0..<?n. ((ps[i := x]) ! a - os ! a) ^ 2) has_real_derivative
           2 * (ps ! i - os ! i)) (at (ps ! i))"
    by simp
  from DERIV_cmult [OF this, of "(1 / 2) * k"]
  have "((\<lambda>x. (1 / 2) * k * (\<Sum>a = 0..<?n. ((ps[i := x]) ! a - os ! a) ^ 2))
            has_real_derivative (1 / 2) * k * (2 * (ps ! i - os ! i))) (at (ps ! i))" .
  moreover have "(1 / 2) * k * (2 * (ps ! i - os ! i)) = k * (ps ! i - os ! i)" by simp
  ultimately show ?thesis by (simp only:)
qed

lemma coulomb_slope:
  assumes i: "i < length ps"
    and gaps: "\<And>j. j < length ps \<Longrightarrow> j \<noteq> i \<Longrightarrow> 1 / 10 ^ 8 < \<bar>ps ! i - ps ! j\<bar>"
  shows "((\<lambda>x. \<Sum>a = 0..<length ps. \<Sum>b = a + 1..<length ps. pair_energy (ps[i := x]) C a b)
            has_real_derivative - 2 * C * repulsion_sum ps i) (at (ps ! i))"
proof -
  let ?n = "length ps"
  have "((\<lambda>x. \<Sum>a = 0..<?n. \<Sum>b = a + 1..<?n. pair_energy (ps[i := x]) C a b)
           has_real_derivative
         (\<Sum>a = 0..<?n. \<Sum>b = a + 1..<?n.
             if a = i then pull ps C i b else if b = i then pull ps C i a else 0)) (at (ps ! i))"
    by (intro DERIV_sum pair_energy_slope i gaps) auto
  moreover have "(\<Sum>a = 0..<?n. \<Sum>b = a + 1..<?n.
             if a = i then pull ps C i b else if b = i then pull ps C i a else 0)
        = (\<Sum>j = 0..<?n. if j = i then 0 else pull ps C i j)"
    using i by (rule pull_double_sum)
  moreover have "(\<Sum>j = 0..<?n. if j = i then 0 else pull ps C i j)
        = - 2 * C * repulsion_sum ps i"
  proof -
    have "(if j = i then 0 else pull ps C i j)
        = - 2 * C * (if j = i \<or> \<bar>ps ! i - ps ! j\<bar> \<le> 1 / 10 ^ 8 then 0
                     else (ps ! i - ps ! j) / \<bar>ps ! i - ps ! j\<bar> ^ 4)"
      if "j \<in> {0..<?n}" for j
      using that gaps [of j] by (auto simp: pull_def)
    then have "(\<Sum>j = 0..<?n. if j = i then 0 else pull ps C i j)
        = (\<Sum>j = 0..<?n. - 2 * C * (if j = i \<or> \<bar>ps ! i - ps ! j\<bar> \<le> 1 / 10 ^ 8 then 0
                     else (ps ! i - ps ! j) / \<bar>ps ! i - ps ! j\<bar> ^ 4))"
      by (intro sum.cong refl)
    then show ?thesis by (simp only: repulsion_sum_def sum_distrib_left)
  qed
  ultimately show ?thesis by simp
qed

lemma energy_gradient:
  assumes len: "length os = length ps" and i: "i < length ps"
    and gaps: "\<And>j. j < length ps \<Longrightarrow> j \<noteq> i \<Longrightarrow> 1 / 10 ^ 8 < \<bar>ps ! i - ps ! j\<bar>"
  shows "energy_partial ps os C k i (k * (ps ! i - os ! i) - 2 * C * repulsion_sum ps i)"
  unfolding energy_partial_def
proof (intro exI conjI allI)
  fix x
  show "get_energy (ps[i := x]) os C k = Inr (energy_spec (ps[i := x]) os C k)"
    using len by (simp add: get_energy_closed)
next
  have "((\<lambda>x. (\<Sum>a = 0..<length ps. \<Sum>b = a + 1..<length ps. pair_energy (ps[i := x]) C a b)
             + (1 / 2) * k * (\<Sum>a = 0..<length ps. ((ps[i := x]) ! a - os ! a) ^ 2))
          has_real_derivative - 2 * C * repulsion_sum ps i + k * (ps ! i - os ! i)) (at (ps ! i))"
    by (rule DERIV_add [OF coulomb_slope [OF i gaps] spring_slope [OF i]])
  then show "((\<lambda>x. energy_spec (ps[i := x]) os C k) has_real_derivative
                k * (ps ! i - os ! i) - 2 * C * repulsion_sum ps i) (at (ps ! i))"
    by (simp add: energy_spec_def)
qed


lemma total_forces_gradient_of_rescaled_energy:
  assumes len: "length os = length ps" and i: "i < length ps"
    and gaps: "\<And>j. j < length ps \<Longrightarrow> j \<noteq> i \<Longrightarrow> 1 / 10 ^ 8 < \<bar>ps ! i - ps ! j\<bar>"
  shows "\<exists>ts. get_total_forces rnd ps os C k = Inr ts
            \<and> energy_partial ps os (C / 2) (2 * k) i (ts ! i)"
proof -
  from total_forces_closed [OF len i, of rnd C k] obtain ts where
    ts: "get_total_forces rnd ps os C k = Inr ts"
        "ts ! i = 2 * k * (ps ! i - os ! i) - C * repulsion_sum ps i" by blast
  have "energy_partial ps os (C / 2) (2 * k) i
          (2 * k * (ps ! i - os ! i) - 2 * (C / 2) * repulsion_sum ps i)"
    using len i gaps by (rule energy_gradient)
  then have "energy_partial ps os (C / 2) (2 * k) i (ts ! i)"
    by (simp add: ts(2))
  with ts(1) show ?thesis by blast
qed


section \<open>The two broadening functions\<close>

lemma lorentzian_is_gaussian:
  "lorentzian X x0 Y y0 xb yb = gaussian X x0 Y y0 xb yb"
  by (simp add: lorentzian_def gaussian_def)

lemma add_peaks_lorentzian_gaussian:
  "add_peaks ''lorentzian'' xb yb X Y peaks Z = add_peaks ''gaussian'' xb yb X Y peaks Z"
  by (induction peaks arbitrary: Z) (simp_all add: lorentzian_is_gaussian Let_def split: sum.splits)

lemma lower_names: "lower ''lorentzian'' = ''lorentzian''" "lower ''gaussian'' = ''gaussian''"
  by (simp_all add: lower_def lower_char_def)

text \<open>
  Claim C9. For all grids \<open>X\<close>, \<open>Y\<close>, every peak centre and all broadening factors, the
  functions \<open>lorentzian\<close> and \<open>gaussian\<close> return the same result, and so
  \<open>generate_contour_map\<close> returns the same for the name \<open>'lorentzian'\<close> as for the name
  \<open>'gaussian'\<close>, on every peak list and with all other arguments.
\<close>

theorem lorentzian_same_as_gaussian:
  "lorentzian X x0 Y y0 xb yb = gaussian X x0 Y y0 xb yb
   \<and> generate_contour_map peaks grid_size ''lorentzian'' xb yb xlims ylims
       = generate_contour_map peaks grid_size ''gaussian'' xb yb xlims ylims"
  by (simp add: lorentzian_is_gaussian generate_contour_map_def lower_names Let_def
        add_peaks_lorentzian_gaussian cong: sum.case_cong prod.case_cong)


section \<open>Unknown broadening names\<close>

text \<open>
  Claim C4 says that every call with a name other than the two known ones raises the
  \<open>ValueError\<close> that names it, for any peak list and any limits. The code tests the name
  inside the loop over the peaks. With the empty peak list and both limits given, the call
  with the name \<open>'triangular'\<close> returns a grid.
\<close>

theorem unknown_kernel_without_peaks_returns:
  "generate_contour_map [] 2 ''triangular'' 1 1 (Some (0, 1)) (Some (0, 1))
     = Inr ([[- 5, 6], [- 5, 6]], [[- 5, - 5], [6, 6]], [[Fin 0, Fin 0], [Fin 0, Fin 0]])"
  by (simp add: generate_contour_map_def axis_bounds_def linspace_def meshgrid_def zeros_like_def
        lower_def lower_char_def numeral_2_eq_2)

text \<open>
  With at least one peak and a grid size that is not negative, the error of the claim is
  raised, whatever the limits and the broadening factors.
\<close>

lemma axis_bounds_nonempty:
  "coords \<noteq> [] \<Longrightarrow> \<exists>b. axis_bounds lims coords = Inr b"
  by (cases lims) (simp_all add: axis_bounds_def py_min_def py_max_def)

lemma linspace_returns: "0 \<le> num \<Longrightarrow> \<exists>xs. linspace a b num = Inr xs"
  by (simp add: linspace_def)

lemma unknown_kernel_raises:
  assumes "peaks \<noteq> []" "0 \<le> grid_size"
    and "lower b \<noteq> ''lorentzian''" "lower b \<noteq> ''gaussian''"
  shows "generate_contour_map peaks grid_size b xb yb xlims ylims
           = Inl (ValueError (''Unknown broadening function: '' @ lower b))"
proof -
  from assms(1) obtain xlo xhi where bndx: "axis_bounds xlims (map peak_x peaks) = Inr (xlo, xhi)"
    using axis_bounds_nonempty [of "map peak_x peaks" xlims] by auto
  from assms(1) obtain ylo yhi where bndy: "axis_bounds ylims (map peak_y peaks) = Inr (ylo, yhi)"
    using axis_bounds_nonempty [of "map peak_y peaks" ylims] by auto
  from assms(2) obtain xs where lx: "linspace (xlo - 5 * xb) (xhi + 5 * xb) grid_size = Inr xs"
    using linspace_returns by blast
  from assms(2) obtain ys where ly: "linspace (ylo - 5 * yb) (yhi + 5 * yb) grid_size = Inr ys"
    using linspace_returns by blast
  from assms(1) obtain p ps where peaks: "peaks = p # ps" by (cases peaks) auto
  have "add_peaks (lower b) xb yb X Y peaks Z
          = Inl (ValueError (''Unknown broadening function: '' @ lower b))" for X Y Z
    using assms(3,4) by (simp add: peaks Let_def)
  then show ?thesis
    by (simp add: generate_contour_map_def Let_def bndx bndy lx ly split: prod.splits)
qed


section \<open>The bounds of the mesh\<close>

lemma between_ends: "between lo hi lo" "between lo hi hi"
  by (simp_all add: between_def)

lemma between_step:
  assumes "i < n"
  shows "between a b (a + real i * ((b - a) / real n))"
proof -
  let ?t = "real i / real n"
  have t: "0 \<le> ?t" "?t \<le> 1" using assms by simp_all
  have v: "a + real i * ((b - a) / real n) = a + ?t * (b - a)" by simp
  show ?thesis
  proof (cases "a \<le> b")
    case True
    then have "0 \<le> ?t * (b - a)" using t(1) by (intro mult_nonneg_nonneg) simp_all
    moreover have "?t * (b - a) \<le> 1 * (b - a)"
      using True t(2) by (intro mult_right_mono) simp_all
    ultimately show ?thesis unfolding v between_def using True by simp
  next
    case False
    then have ba: "b - a \<le> 0" by simp
    then have "?t * (b - a) \<le> 0" using t(1) by (intro mult_nonneg_nonpos) simp_all
    moreover have "1 * (b - a) \<le> ?t * (b - a)"
      using ba t(2) by (intro mult_right_mono_neg) simp_all
    ultimately show ?thesis unfolding v between_def using False by simp
  qed
qed

lemma linspace_two_or_more:
  assumes "2 \<le> num"
  shows "\<exists>xs. linspace a b num = Inr xs \<and> length xs = nat num \<and> hd xs = a \<and> last xs = b
              \<and> list_all (between a b) xs"
proof -
  let ?m = "nat num - 1"
  let ?xs = "map (\<lambda>i. a + real i * ((b - a) / real ?m)) [0..<?m] @ [b]"
  from assms have m: "0 < ?m" "Suc ?m = nat num" by simp_all
  have eq: "linspace a b num = Inr ?xs"
    using assms by (simp add: linspace_def)
  have "[0..<?m] = 0 # [1..<?m]" using m(1) by (simp add: upt_conv_Cons)
  then have hd: "hd ?xs = a" by simp
  have "between a b (a + real i * ((b - a) / real ?m))" if "i \<in> set [0..<?m]" for i
    using that by (intro between_step) simp
  then have "list_all (between a b) (map (\<lambda>i. a + real i * ((b - a) / real ?m)) [0..<?m])"
    unfolding list_all_iff by (simp only: set_map) blast
  then have all: "list_all (between a b) ?xs"
    by (simp add: between_ends)
  show ?thesis
    using eq hd all m(2) by (intro exI [of _ ?xs]) simp
qed

lemma x_spans_meshgrid:
  assumes "xs \<noteq> []" "ys \<noteq> []" "hd xs = lo" "last xs = hi" "list_all (between lo hi) xs"
  shows "x_spans (fst (meshgrid xs ys)) lo hi"
  using assms by (simp add: x_spans_def meshgrid_def list_all_iff)

lemma y_spans_meshgrid:
  assumes "xs \<noteq> []" "ys \<noteq> []" "hd ys = lo" "last ys = hi" "list_all (between lo hi) ys"
  shows "y_spans (snd (meshgrid xs ys)) lo hi"
  using assms
  by (simp add: y_spans_def meshgrid_def list_all_iff hd_map last_map)

lemma axis_bounds_limits:
  "axis_bounds lims coords = Inr b \<Longrightarrow> b = axis_limits lims coords"
  by (cases lims)
     (auto simp: axis_bounds_def axis_limits_def py_min_def py_max_def split: if_splits)

lemma same_shape_lengths: "same_shape A B \<longleftrightarrow> map length A = map length B"
proof -
  have "map length A = map length B \<longleftrightarrow> list_all2 (=) (map length A) (map length B)"
    by (simp only: list.rel_eq)
  also have "\<dots> \<longleftrightarrow> list_all2 (\<lambda>a b. length a = length b) A B"
    by (simp only: list_all2_map1 list_all2_map2)
  finally show ?thesis by (simp add: same_shape_def)
qed

lemma lengths_map2_map2:
  "map length A = map length B \<Longrightarrow> map length (map2 (map2 f) A B) = map length A"
proof (induction A arbitrary: B)
  case Nil
  then show ?case by simp
next
  case (Cons a A)
  then obtain b B' where B: "B = b # B'" by (cases B) auto
  with Cons.prems have "length a = length b" "map length A = map length B'" by simp_all
  with Cons.IH [of B'] show ?case by (simp add: B)
qed

lemma collect_rows_same_shape:
  "list_all2 (\<lambda>a b. length a = length b) A B
     \<Longrightarrow> collect_rows (map2 row_add A B) = Inr (map2 (map2 float_add) A B)"
  by (induction rule: list_all2_induct) (simp_all add: row_add_def)

text \<open>Two arrays of one shape are added entry by entry, in both kinds of sum.\<close>

lemma mat_add_entrywise:
  assumes "map length A = map length B"
  shows "mat_add A B = Inr (map2 (map2 float_add) A B)"
proof -
  from assms have s: "list_all2 (\<lambda>a b. length a = length b) A B"
    by (simp add: same_shape_lengths [symmetric] same_shape_def)
  then have "length A = length B" by (rule list_all2_lengthD)
  with collect_rows_same_shape [OF s] show ?thesis by (simp add: mat_add_def)
qed

lemma mat_add_same_shape:
  assumes "map length A = map length B"
  shows "\<exists>S. mat_add A B = Inr S \<and> map length S = map length A"
  using mat_add_entrywise [OF assms] lengths_map2_map2 [OF assms, of float_add]
  by simp

lemma mat_iadd_same_shape:
  assumes "map length Z = map length V"
  shows "\<exists>S. mat_iadd Z V = Inr S \<and> map length S = map length Z"
  using mat_add_entrywise [OF assms] lengths_map2_map2 [OF assms, of float_add]
  by (simp add: mat_iadd_def same_shape_lengths)

lemma kernel_returns:
  assumes "map length X = map length Y"
  shows "\<exists>K. gaussian X x0 Y y0 xb yb = Inr K \<and> map length K = map length X"
proof -
  let ?A = "mat_divide_scalar (map (map (\<lambda>v. (v - x0) ^ 2)) X) (2 * xb ^ 2)"
  let ?B = "mat_divide_scalar (map (map (\<lambda>v. (v - y0) ^ 2)) Y) (2 * yb ^ 2)"
  have "map length ?A = map length X" "map length ?B = map length Y"
    by (simp_all add: mat_divide_scalar_def o_def)
  with assms have "map length ?A = map length ?B" by simp
  from mat_add_same_shape [OF this] obtain S
    where S: "mat_add ?A ?B = Inr S" "map length S = map length ?A" by blast
  have "map length (map (map (\<lambda>v. float_exp (float_neg v))) S) = map length S"
    by (simp add: o_def)
  with S \<open>map length ?A = map length X\<close> show ?thesis
    by (simp add: gaussian_def)
qed

lemma add_peaks_returns:
  assumes "b = ''lorentzian'' \<or> b = ''gaussian''"
    and "map length X = map length Y" and "map length Z = map length X"
  shows "\<exists>Z'. add_peaks b xb yb X Y peaks Z = Inr Z'"
  using assms(3)
proof (induction peaks arbitrary: Z)
  case Nil
  show ?case by simp
next
  case (Cons p peaks)
  from kernel_returns [OF assms(2), of "peak_x p" "peak_y p" xb yb] obtain K
    where K: "gaussian X (peak_x p) Y (peak_y p) xb yb = Inr K" "map length K = map length X"
    by blast
  let ?K = "map (map (\<lambda>v. float_times v (correlation_strength p))) K"
  have "map length Z = map length ?K" using Cons.prems K(2) by (simp add: o_def)
  from mat_iadd_same_shape [OF this] obtain Z1
    where Z1: "mat_iadd Z ?K = Inr Z1" "map length Z1 = map length Z" by blast
  from Z1(2) Cons.prems have "map length Z1 = map length X" by simp
  from Cons.IH [OF this] obtain Z' where "add_peaks b xb yb X Y peaks Z1 = Inr Z'" by blast
  then show ?case
    using assms(1) K(1) Z1(1) by (auto simp: Let_def lorentzian_is_gaussian)
qed

lemma meshgrid_shapes:
  "map length (fst (meshgrid xs ys)) = map length (snd (meshgrid xs ys))"
  "map length (zeros_like (fst (meshgrid xs ys))) = map length (fst (meshgrid xs ys))"
  by (simp_all add: meshgrid_def zeros_like_def o_def map_replicate_const)

lemma generate_contour_map_meshes:
  assumes ret: "generate_contour_map peaks grid_size b xb yb xlims ylims = Inr (X, Y, Z)"
    and gs: "2 \<le> grid_size"
  shows "x_spans X (fst (axis_limits xlims (map peak_x peaks)) - 5 * xb)
                   (snd (axis_limits xlims (map peak_x peaks)) + 5 * xb)"
    and "y_spans Y (fst (axis_limits ylims (map peak_y peaks)) - 5 * yb)
                   (snd (axis_limits ylims (map peak_y peaks)) + 5 * yb)"
proof -
  from ret obtain bx where bx: "axis_bounds xlims (map peak_x peaks) = Inr bx"
    by (auto simp: generate_contour_map_def Let_def split: sum.splits)
  from ret obtain bndy where bndy: "axis_bounds ylims (map peak_y peaks) = Inr bndy"
    by (auto simp: generate_contour_map_def Let_def split: sum.splits prod.splits)
  let ?xlo = "fst (axis_limits xlims (map peak_x peaks)) - 5 * xb"
  let ?xhi = "snd (axis_limits xlims (map peak_x peaks)) + 5 * xb"
  let ?ylo = "fst (axis_limits ylims (map peak_y peaks)) - 5 * yb"
  let ?yhi = "snd (axis_limits ylims (map peak_y peaks)) + 5 * yb"
  from linspace_two_or_more [OF gs, of ?xlo ?xhi] obtain xs where
    xs: "linspace ?xlo ?xhi grid_size = Inr xs" "length xs = nat grid_size" "hd xs = ?xlo"
        "last xs = ?xhi" "list_all (between ?xlo ?xhi) xs" by blast
  from linspace_two_or_more [OF gs, of ?ylo ?yhi] obtain ys where
    ys: "linspace ?ylo ?yhi grid_size = Inr ys" "length ys = nat grid_size" "hd ys = ?ylo"
        "last ys = ?yhi" "list_all (between ?ylo ?yhi) ys" by blast
  from gs xs(2) ys(2) have ne: "xs \<noteq> []" "ys \<noteq> []" by auto
  have bxe: "bx = axis_limits xlims (map peak_x peaks)" using bx by (rule axis_bounds_limits)
  have bye: "bndy = axis_limits ylims (map peak_y peaks)" using bndy by (rule axis_bounds_limits)
  from ret have "X = fst (meshgrid xs ys)" "Y = snd (meshgrid xs ys)"
    using bx bndy xs(1) ys(1) unfolding bxe bye
    by (auto simp: generate_contour_map_def Let_def split: sum.splits prod.splits)
  then show "x_spans X ?xlo ?xhi" "y_spans Y ?ylo ?yhi"
    using x_spans_meshgrid [OF ne xs(3,4,5)] y_spans_meshgrid [OF ne ys(3,4,5)] by simp_all
qed

lemma generate_contour_map_returns:
  assumes gs: "0 \<le> grid_size"
    and lims: "peaks \<noteq> [] \<or> (xlims \<noteq> None \<and> ylims \<noteq> None)"
    and name: "peaks = [] \<or> lower b = ''lorentzian'' \<or> lower b = ''gaussian''"
  shows "\<exists>X Y Z. generate_contour_map peaks grid_size b xb yb xlims ylims = Inr (X, Y, Z)"
proof -
  from lims obtain xlo xhi where bndx: "axis_bounds xlims (map peak_x peaks) = Inr (xlo, xhi)"
    by (cases xlims) (auto simp: axis_bounds_def py_min_def py_max_def)
  from lims obtain ylo yhi where bndy: "axis_bounds ylims (map peak_y peaks) = Inr (ylo, yhi)"
    by (cases ylims) (auto simp: axis_bounds_def py_min_def py_max_def)
  from gs obtain xs where lx: "linspace (xlo - 5 * xb) (xhi + 5 * xb) grid_size = Inr xs"
    using linspace_returns by blast
  from gs obtain ys where ly: "linspace (ylo - 5 * yb) (yhi + 5 * yb) grid_size = Inr ys"
    using linspace_returns by blast
  let ?X = "fst (meshgrid xs ys)"
  let ?Y = "snd (meshgrid xs ys)"
  have "\<exists>Z'. add_peaks (lower b) xb yb ?X ?Y peaks (zeros_like ?X) = Inr Z'"
  proof (cases "peaks = []")
    case True
    then show ?thesis by simp
  next
    case False
    with name have "lower b = ''lorentzian'' \<or> lower b = ''gaussian''" by simp
    then show ?thesis
      using meshgrid_shapes by (rule add_peaks_returns)
  qed
  then obtain Z' where "add_peaks (lower b) xb yb ?X ?Y peaks (zeros_like ?X) = Inr Z'" ..
  then have "generate_contour_map peaks grid_size b xb yb xlims ylims = Inr (?X, ?Y, Z')"
    by (simp add: generate_contour_map_def Let_def bndx bndy lx ly case_prod_beta)
  then show ?thesis by blast
qed

lemma x_spans_ends: "x_spans X lo hi \<Longrightarrow> hd (hd X) = lo \<and> last (hd X) = hi"
  by (cases X) (simp_all add: x_spans_def)

lemma y_spans_ends: "y_spans Y lo hi \<Longrightarrow> hd (hd Y) = lo \<and> hd (last Y) = hi"
proof -
  assume y: "y_spans Y lo hi"
  then have ne: "hd Y \<noteq> []" "last Y \<noteq> []" and lo: "list_all (\<lambda>v. v = lo) (hd Y)"
    and hi: "list_all (\<lambda>v. v = hi) (last Y)" by (simp_all add: y_spans_def)
  from ne(1) lo have "hd (hd Y) = lo" by (cases "hd Y") simp_all
  moreover from ne(2) hi have "hd (last Y) = hi" by (cases "last Y") simp_all
  ultimately show ?thesis by simp
qed


text \<open>
  Claim C10, for a grid size of at least two. Take such a call. If it returns,
  every row of \<open>X\<close> runs from \<open>x_min - 5 * x_broadening\<close> to \<open>x_max + 5 * x_broadening\<close> and no
  entry lies outside these two, and \<open>Y\<close> does the same down its columns with
  \<open>y_broadening\<close>; \<open>x_min\<close> and \<open>x_max\<close> are the supplied limits when limits are given and
  the least and greatest peak coordinate otherwise. The padding is applied to supplied
  limits too: the first sample of a row is \<open>x_min\<close> itself, and the last sample \<open>x_max\<close>
  itself, exactly when \<open>x_broadening\<close> is zero, and likewise for \<open>Y\<close> and \<open>y_broadening\<close>.
  And the call does return, also with a broadening of zero, whenever there is a peak or
  both limits are given, and there is no peak or the broadening name is one of the two
  known ones.
\<close>

theorem mesh_padded_by_five_broadenings:
  assumes gs: "2 \<le> grid_size"
  shows "(generate_contour_map peaks grid_size b xb yb xlims ylims = Inr (X, Y, Z) \<longrightarrow>
            x_spans X (fst (axis_limits xlims (map peak_x peaks)) - 5 * xb)
                      (snd (axis_limits xlims (map peak_x peaks)) + 5 * xb)
          \<and> y_spans Y (fst (axis_limits ylims (map peak_y peaks)) - 5 * yb)
                      (snd (axis_limits ylims (map peak_y peaks)) + 5 * yb)
          \<and> (hd (hd X) = fst (axis_limits xlims (map peak_x peaks)) \<longleftrightarrow> xb = 0)
          \<and> (last (hd X) = snd (axis_limits xlims (map peak_x peaks)) \<longleftrightarrow> xb = 0)
          \<and> (hd (hd Y) = fst (axis_limits ylims (map peak_y peaks)) \<longleftrightarrow> yb = 0)
          \<and> (hd (last Y) = snd (axis_limits ylims (map peak_y peaks)) \<longleftrightarrow> yb = 0))
       \<and> ((peaks \<noteq> [] \<or> (xlims \<noteq> None \<and> ylims \<noteq> None))
            \<and> (peaks = [] \<or> lower b = ''lorentzian'' \<or> lower b = ''gaussian'')
          \<longrightarrow> (\<exists>X Y Z. generate_contour_map peaks grid_size b xb yb xlims ylims
                          = Inr (X, Y, Z)))"
proof (intro conjI impI)
  assume ret: "generate_contour_map peaks grid_size b xb yb xlims ylims = Inr (X, Y, Z)"
  note m = generate_contour_map_meshes [OF ret gs]
  show "x_spans X (fst (axis_limits xlims (map peak_x peaks)) - 5 * xb)
                  (snd (axis_limits xlims (map peak_x peaks)) + 5 * xb)"
    by (rule m(1))
  show "y_spans Y (fst (axis_limits ylims (map peak_y peaks)) - 5 * yb)
                  (snd (axis_limits ylims (map peak_y peaks)) + 5 * yb)"
    by (rule m(2))
  from x_spans_ends [OF m(1)]
  show "hd (hd X) = fst (axis_limits xlims (map peak_x peaks)) \<longleftrightarrow> xb = 0"
    and "last (hd X) = snd (axis_limits xlims (map peak_x peaks)) \<longleftrightarrow> xb = 0"
    by auto
  from y_spans_ends [OF m(2)]
  show "hd (hd Y) = fst (axis_limits ylims (map peak_y peaks)) \<longleftrightarrow> yb = 0"
    and "hd (last Y) = snd (axis_limits ylims (map peak_y peaks)) \<longleftrightarrow> yb = 0"
    by auto
next
  assume "(peaks \<noteq> [] \<or> (xlims \<noteq> None \<and> ylims \<noteq> None))
            \<and> (peaks = [] \<or> lower b = ''lorentzian'' \<or> lower b = ''gaussian'')"
  moreover from gs have "0 \<le> grid_size" by simp
  ultimately show "\<exists>X Y Z. generate_contour_map peaks grid_size b xb yb xlims ylims
                          = Inr (X, Y, Z)"
    by (intro generate_contour_map_returns) simp_all
qed

theorem mesh_padded_by_five_broadenings_witness:
  "(2 :: int) \<le> 3
   \<and> generate_contour_map [] 3 ''gaussian'' 1 2 (Some (0, 10)) (Some (100, 0))
       = Inr ([[- 5, 5, 15], [- 5, 5, 15], [- 5, 5, 15]],
              [[90, 90, 90], [50, 50, 50], [10, 10, 10]],
              [[Fin 0, Fin 0, Fin 0], [Fin 0, Fin 0, Fin 0], [Fin 0, Fin 0, Fin 0]])
   \<and> x_spans [[- 5, 5, 15], [- 5, 5, 15], [- 5, 5, 15]] (- 5) 15
   \<and> y_spans [[90, 90, 90], [50, 50, 50], [10, 10, 10]] 90 10
   \<and> (2 :: int) \<le> 2
   \<and> [peak_at 0 1] \<noteq> [] \<and> lower ''Gaussian'' = ''gaussian''
   \<and> generate_contour_map [peak_at 0 1] 2 ''Gaussian'' 0 1 (Some (0, 10)) None
       = Inr ([[0, 10], [0, 10]], [[- 4, - 4], [6, 6]], [[NaN, Fin 0], [NaN, Fin 0]])
   \<and> x_spans [[0, 10], [0, 10]] 0 10
   \<and> y_spans [[- 4, - 4], [6, 6]] (- 4) 6"
proof -
  have g3: "(2 :: int) \<le> 3" and g2: "(2 :: int) \<le> 2" by simp_all
  have e1: "generate_contour_map [] 3 ''gaussian'' 1 2 (Some (0, 10)) (Some (100, 0))
     = Inr ([[- 5, 5, 15], [- 5, 5, 15], [- 5, 5, 15]],
            [[90, 90, 90], [50, 50, 50], [10, 10, 10]],
            [[Fin 0, Fin 0, Fin 0], [Fin 0, Fin 0, Fin 0], [Fin 0, Fin 0, Fin 0]])"
    by (simp add: generate_contour_map_def axis_bounds_def linspace_def meshgrid_def
          zeros_like_def lower_def lower_char_def numeral_3_eq_3 upt_rec)
  have low: "lower ''Gaussian'' = ''gaussian''" by code_simp
  have e2: "generate_contour_map [peak_at 0 1] 2 ''Gaussian'' 0 1 (Some (0, 10)) None
       = Inr ([[0, 10], [0, 10]], [[- 4, - 4], [6, 6]], [[NaN, Fin 0], [NaN, Fin 0]])"
    by (simp add: generate_contour_map_def axis_bounds_def linspace_def meshgrid_def
          zeros_like_def low numeral_2_eq_2 py_min_def py_max_def
          peak_at_def gaussian_def mat_divide_scalar_def mat_add_def mat_iadd_def row_add_def
          same_shape_def Let_def
          float_div_def)
  from mesh_padded_by_five_broadenings [OF g3, of "[]" "''gaussian''" 1 2 "Some (0, 10)"
      "Some (100, 0)"] e1
  have s1: "x_spans [[- 5, 5, 15], [- 5, 5, 15], [- 5, 5, 15]] (- 5) 15"
       "y_spans [[90, 90, 90], [50, 50, 50], [10, 10, 10]] 90 10"
    by (simp_all add: axis_limits_def)
  from mesh_padded_by_five_broadenings [OF g2, of "[peak_at 0 1]" "''Gaussian''" 0 1
      "Some (0, 10)" None] e2
  have s2: "x_spans [[0, 10], [0, 10]] 0 10" "y_spans [[- 4, - 4], [6, 6]] (- 4) 6"
    by (simp_all add: axis_limits_def peak_at_def)
  from g3 g2 e1 e2 s1 s2 low show ?thesis by simp
qed

text \<open>
  Claim C10 as stated fails for a grid size of one: the single sample is the lower bound,
  so the mesh does not reach \<open>x_max + 5 * x_broadening\<close>. And with a broadening of zero the
  supplied limits are the bounds of the mesh.
\<close>

theorem mesh_not_spanned_counterexample:
  "generate_contour_map [] 1 ''gaussian'' 1 1 (Some (0, 10)) (Some (0, 10))
     = Inr ([[- 5]], [[- 5]], [[Fin 0]])
   \<and> \<not> x_spans [[- 5]] (0 - 5 * 1) (10 + 5 * 1)
   \<and> generate_contour_map [] 2 ''gaussian'' 0 0 (Some (0, 10)) (Some (0, 10))
     = Inr ([[0, 10], [0, 10]], [[0, 0], [10, 10]], [[Fin 0, Fin 0], [Fin 0, Fin 0]])"
  by (simp add: generate_contour_map_def axis_bounds_def linspace_def meshgrid_def zeros_like_def
        lower_def lower_char_def numeral_2_eq_2 x_spans_def)


section \<open>The divisions behind the test of the source\<close>

text \<open>
  The divisions of \<open>get_energy\<close>, \<open>get_force_matrix\<close> and \<open>get_total_forces\<close> are never
  divisions by zero, for arrays of any lengths: the test of the source that the gap is
  above \<open>1e-8\<close> keeps the divisor away from zero.
\<close>

lemma get_energy_no_zero_division: "get_energy ps os C k \<noteq> Inl ZeroDivide"
  by (simp add: get_energy_def coulomb_outer_sum np_sub_def Let_def)

lemma get_force_matrix_no_zero_division: "get_force_matrix rnd ps os C k \<noteq> Inl ZeroDivide"
proof -
  let ?n = "length ps"
  let ?I = "[0..<?n]"
  let ?D = "tabl ?I ?I (\<lambda>i j. ps ! i - ps ! j)"
  let ?M = "tabl ?I ?I (\<lambda>i j. i \<noteq> j \<and> 1 / 10 ^ 8 < \<bar>ps ! i - ps ! j\<bar>)"
  let ?f = "\<lambda>d::real. C * d / \<bar>d\<bar> ^ 4"
  have off: "logical_and (logical_not (eye ?n)) (map (map (\<lambda>d. \<bar>d\<bar> > 1 / 10 ^ 8)) ?D) = ?M"
    by (simp add: eye_tabl logical_not_tabl map_map_tabl logical_and_tabl)
  have nz: "\<bar>x\<bar> ^ 4 \<noteq> 0" if "x \<in> set (mask_select ?M ?D)" for x
  proof -
    from set_mask_select_tabl [OF that] obtain i j
      where "1 / 10 ^ 8 < \<bar>ps ! i - ps ! j\<bar>" "x = ps ! i - ps ! j" by blast
    then have "x \<noteq> 0" by auto
    then show ?thesis by simp
  qed
  have rep: "np_divide (map (\<lambda>d. C * d) (mask_select ?M ?D))
                       (map (\<lambda>d. \<bar>d\<bar> ^ 4) (mask_select ?M ?D))
               = Inr (map ?f (mask_select ?M ?D))"
    using nz by (rule np_divide_no_zero)
  have ma: "mask_assign m A vs \<noteq> Inl ZeroDivide" for m A vs
    by (simp add: mask_assign_def)
  have "(case np_sub ps os of Inl e \<Rightarrow> Inl e | Inr d \<Rightarrow> mask_assign m A (g d))
          \<noteq> Inl ZeroDivide" for m A g
    using ma by (simp add: np_sub_def)
  then show ?thesis
    unfolding get_force_matrix_def Let_def
    by (simp only: zeros_tabl displacement_tabl off rep sum.case) simp
qed

lemma get_total_forces_no_zero_division: "get_total_forces rnd ps os C k \<noteq> Inl ZeroDivide"
  using get_force_matrix_no_zero_division [of rnd ps os C k]
  by (cases "get_force_matrix rnd ps os C k") (auto simp: get_total_forces_def)


section \<open>The optimiser on three or more positions\<close>

lemma take_idx_argsort:
  assumes "is_argsort a order"
  shows "take_idx a order = Inr (map (\<lambda>i. a ! i) order)"
  using assms by (auto simp: take_idx_def is_argsort_def list_all_iff)

lemma nth_image_all: "(\<lambda>i. a ! i) ` {0..<length a} = set a"
  using nth_image [of "length a" a] by simp

lemma set_sorted_positions:
  assumes "is_argsort a order"
  shows "set (map (\<lambda>i. a ! i) order) = set a"
proof -
  from assms have "set order = {0..<length a}" by (simp add: is_argsort_def)
  then have "set (map (\<lambda>i. a ! i) order) = (\<lambda>i. a ! i) ` {0..<length a}" by simp
  also have "\<dots> = set a" by (rule nth_image_all)
  finally show ?thesis .
qed

lemma argsort_of_order_inverts:
  assumes o: "is_argsort a order"
    and i: "is_argsort (map real order) iord"
    and r: "r < length a"
  shows "iord ! (order ! r) = r"
proof -
  let ?n = "length a"
  from o have lo: "length order = ?n" and do: "distinct order" and so: "set order = {0..<?n}"
    by (simp_all add: is_argsort_def)
  from i lo have li: "length iord = ?n" and di: "distinct iord" and si: "set iord = {0..<?n}"
    and sorted_i: "sorted (map (\<lambda>j. map real order ! j) iord)"
    by (simp_all add: is_argsort_def)
  let ?L = "map (\<lambda>j. order ! j) iord"
  have inj: "inj_on (\<lambda>j. order ! j) (set iord)"
    using do lo si by (auto simp: inj_on_def nth_eq_iff_index_eq)
  have dL: "distinct ?L" using di inj by (simp add: distinct_map)
  have "set ?L = (\<lambda>j. order ! j) ` {0..<length order}" using si lo by simp
  also have "\<dots> = set order" by (rule nth_image_all)
  finally have sL: "set ?L = {0..<?n}" using so by simp
  have "map (\<lambda>j. map real order ! j) iord = map real ?L"
    using si lo by (simp add: map_idI)
  with sorted_i have "sorted (map real ?L)" by simp
  then have sortL: "sorted ?L"
    by (simp add: sorted_iff_nth_mono)
  have sL': "set ?L = set [0..<?n]" unfolding set_upt by (rule sL)
  have "?L = [0..<?n]"
    by (rule sorted_distinct_set_unique [OF sortL dL _ _ sL']) simp_all
  then have Lk: "?L ! k = [0..<?n] ! k" for k by (rule arg_cong)
  have ordinv: "order ! (iord ! k) = k" if "k < ?n" for k
  proof -
    have "?L ! k = order ! (iord ! k)" using that li by simp
    moreover have "[0..<?n] ! k = k" using that by simp
    ultimately show ?thesis using Lk [of k] by (simp only:)
  qed
  have "order ! r \<in> set order" using r lo by simp
  with so have k: "order ! r < ?n" by simp
  have "iord ! (order ! r) \<in> set iord" using k li by simp
  with si have ir: "iord ! (order ! r) < ?n" by simp
  from ordinv [OF k] have "order ! (iord ! (order ! r)) = order ! r" .
  with do lo ir r show ?thesis by (simp add: nth_eq_iff_index_eq)
qed


lemma unsort_restores:
  assumes o: "is_argsort a order"
    and i: "is_argsort (map real order) iord"
    and len: "length new = length a"
  shows "take_idx new iord = Inr (map (\<lambda>j. new ! j) iord)"
    and "length (map (\<lambda>j. new ! j) iord) = length a"
    and "r < length a \<Longrightarrow> map (\<lambda>j. new ! j) iord ! (order ! r) = new ! r"
proof -
  from o have lo: "length order = length a" and so: "set order = {0..<length a}"
    by (simp_all add: is_argsort_def)
  from i lo have li: "length iord = length a" and si: "set iord = {0..<length a}"
    by (simp_all add: is_argsort_def)
  show "take_idx new iord = Inr (map (\<lambda>j. new ! j) iord)"
    using si len by (auto simp: take_idx_def list_all_iff)
  show "length (map (\<lambda>j. new ! j) iord) = length a" using li by simp
  assume r: "r < length a"
  with lo have "order ! r \<in> set order" by simp
  with so have "order ! r < length a" by simp
  then show "map (\<lambda>j. new ! j) iord ! (order ! r) = new ! r"
    using li argsort_of_order_inverts [OF o i r] by simp
qed

lemma sort_then_unsort:
  assumes o: "is_argsort a order"
    and i: "is_argsort (map real order) iord"
  shows "map (\<lambda>j. map (\<lambda>i. a ! i) order ! j) iord = a"
proof (rule nth_equalityI)
  from o have lo: "length order = length a" and so: "set order = {0..<length a}"
    and d: "distinct order" by (simp_all add: is_argsort_def)
  from i lo have li: "length iord = length a" and si: "set iord = {0..<length a}"
    by (simp_all add: is_argsort_def)
  show "length (map (\<lambda>j. map (\<lambda>i. a ! i) order ! j) iord) = length a" using li by simp
  fix m assume "m < length (map (\<lambda>j. map (\<lambda>i. a ! i) order ! j) iord)"
  then have m: "m < length a" using li by simp
  from so m have "m \<in> set order" by simp
  then obtain r where "r < length order" "order ! r = m"
    unfolding in_set_conv_nth by blast
  with lo have r: "r < length a" "order ! r = m" by simp_all
  from argsort_of_order_inverts [OF o i r(1)] r(2) have im: "iord ! m = r" by simp
  show "map (\<lambda>j. map (\<lambda>i. a ! i) order ! j) iord ! m = a ! m"
    using m li lo r im by simp
qed

lemma argsort_stable_sorts: "is_argsort a (argsort_stable a)"
proof -
  let ?n = "length a"
  let ?Z = "zip a [0..<?n]"
  let ?L = "sort_key fst ?Z"
  have snds: "map snd ?Z = [0..<?n]" by simp
  have "distinct (map snd ?Z)" unfolding snds by simp
  then have "distinct ?Z \<and> inj_on snd (set ?Z)"
    by (simp only: distinct_map)
  then have dZ: "distinct ?Z" and inj: "inj_on snd (set ?Z)" by blast+
  have len: "length (map snd ?L) = ?n" by simp
  have dist: "distinct (map snd ?L)"
    using dZ inj by (simp add: distinct_map)
  have "set (map snd ?L) = set (map snd ?Z)" by (simp only: set_map set_sort)
  also have "\<dots> = set [0..<?n]" by (simp only: snds)
  finally have st: "set (map snd ?L) = {0..<?n}" by (simp only: set_upt)
  have pair: "a ! snd p = fst p" if "p \<in> set ?L" for p
  proof -
    from that have "p \<in> set ?Z" by simp
    then obtain j where "j < ?n" "p = (a ! j, j)"
      by (auto simp: in_set_zip)
    then show ?thesis by simp
  qed
  have "map (\<lambda>i. a ! i) (map snd ?L) = map (\<lambda>p. a ! snd p) ?L"
    by (simp only: map_map o_def)
  also have "\<dots> = map fst ?L"
    by (rule map_cong [OF refl]) (rule pair)
  finally have "map (\<lambda>i. a ! i) (map snd ?L) = map fst ?L" .
  moreover have "sorted (map fst ?L)" by (rule sorted_sort_key)
  ultimately have srt: "sorted (map (\<lambda>i. a ! i) (map snd ?L))" by (simp only:)
  show ?thesis
    unfolding is_argsort_def argsort_stable_def using len dist st srt by blast
qed

lemma optimise_annotations_unfolded:
  assumes n: "3 \<le> length ps"
    and o: "is_argsort ps (argsort ps)"
    and i: "is_argsort (map real (argsort ps)) (argsort (map real (argsort ps)))"
    and x: "minimize get_energy (normalised ps (argsort ps))
              (normalised ps (argsort ps), C, k) (get_total_forces rnd)
              max_iters ftol (constraints (normalised ps (argsort ps))) = Inr x"
    and lx: "length x = length ps"
  shows "optimise_annotations argsort minimize rnd ps max_iters C k ftol
           = Inr (map (\<lambda>j. rescaled ps x ! j) (argsort (map real (argsort ps))))"
proof -
  let ?order = "argsort ps"
  let ?sp = "map (\<lambda>i. ps ! i) ?order"
  let ?lo = "Min (set ps)"
  let ?hi = "Max (set ps)"
  from o have lo: "length ?order = length ps" by (simp add: is_argsort_def)
  have t1: "take_idx ps ?order = Inr ?sp" using o by (rule take_idx_argsort)
  have sset: "set ?sp = set ps" using o by (rule set_sorted_positions)
  from n lo have spne: "?sp \<noteq> []" by auto
  have mx: "np_max ?sp = Inr ?hi" and mn: "np_min ?sp = Inr ?lo"
    using spne sset by (simp_all add: np_max_def np_min_def del: set_map)
  have dv: "np_divide_scalar (map (\<lambda>p. p - ?lo) ?sp) (?hi - ?lo) = normalised ps ?order"
    by (simp add: np_divide_scalar_def normalised_def)
  have ln: "length (rescaled ps x) = length ps" using lx by (simp add: rescaled_def)
  note u = unsort_restores [OF o i ln]
  from n have nlt: "\<not> length ps < 3" by simp
  show ?thesis
    unfolding optimise_annotations_def Let_def
    by (simp only: nlt if_False t1 sum.case mx mn dv x u(1) rescaled_def [symmetric])
qed

text \<open>
  Claim C3 says that no input of three or more positions, coincident ones included, makes
  \<open>optimise_annotations\<close> divide by a true zero. The normalisation divides by the range of
  the positions. For three coincident positions the range is zero and so is every
  dividend: the three quotients are nan, whatever the minimiser and the constants. The
  minimiser is started at an array of nan, with the constraints built from that array, and
  its result is multiplied by the range zero; with a minimiser that returns its starting
  point every position comes back as nan.
\<close>

theorem all_coincident_divides_by_zero:
  "np_max [1, 1, 1] = Inr 1 \<and> np_min [1, 1, 1] = Inr 1
   \<and> np_divide_scalar (map (\<lambda>p. p - 1) [1, 1, 1]) (1 - 1) = [NaN, NaN, NaN]
   \<and> optimise_annotations argsort_stable minimize rnd [1, 1, 1] max_iters C k ftol
       = (case minimize get_energy [NaN, NaN, NaN] ([NaN, NaN, NaN], C, k)
                 (get_total_forces rnd) max_iters ftol (constraints [NaN, NaN, NaN]) of
            Inl e \<Rightarrow> Inl e
          | Inr x \<Rightarrow> take_idx (map (\<lambda>v. float_add (float_times v 0) (Fin 1)) x) [0, 1, 2])
   \<and> optimise_annotations argsort_stable minimize_none rnd [1, 1, 1] max_iters C k ftol
       = Inr [NaN, NaN, NaN]"
proof -
  have a: "argsort_stable [1, 1, 1] = [0, 1, 2]"
    by (simp add: argsort_stable_def upt_rec)
  have b: "argsort_stable [0, 1, 2] = [0, 1, 2]"
    by (simp add: argsort_stable_def upt_rec)
  show ?thesis
    by (simp add: optimise_annotations_def a b take_idx_def np_max_def np_min_def
          np_divide_scalar_def float_div_def minimize_none_def Let_def
          split: sum.splits)
qed

text \<open>
  The same holds for every function that sorts as \<open>np.argsort\<close> promises: for three or more
  positions that all coincide, every entry of the array handed to the minimiser is nan.
\<close>

lemma all_coincident_in_general:
  assumes n: "3 \<le> length ps"
    and o: "is_argsort ps (argsort ps)"
    and eq: "Min (set ps) = Max (set ps)"
  shows "np_divide_scalar (map (\<lambda>p. p - Min (set ps)) (map (\<lambda>i. ps ! i) (argsort ps)))
           (Max (set ps) - Min (set ps)) = replicate (length ps) NaN"
    and "optimise_annotations argsort minimize rnd ps max_iters C k ftol
       = (case minimize get_energy (replicate (length ps) NaN)
                 (replicate (length ps) NaN, C, k) (get_total_forces rnd) max_iters ftol
                 (constraints (replicate (length ps) NaN)) of
            Inl e \<Rightarrow> Inl e
          | Inr x \<Rightarrow> take_idx (map (\<lambda>v. float_add (float_times v 0) (Fin (Min (set ps)))) x)
                       (argsort (map real (argsort ps))))"
proof -
  let ?sp = "map (\<lambda>i. ps ! i) (argsort ps)"
  let ?lo = "Min (set ps)"
  from o have lo: "length (argsort ps) = length ps" by (simp add: is_argsort_def)
  have t1: "take_idx ps (argsort ps) = Inr ?sp" using o by (rule take_idx_argsort)
  have sset: "set ?sp = set ps" using o by (rule set_sorted_positions)
  from n lo have spne: "?sp \<noteq> []" by auto
  have mx: "np_max ?sp = Inr (Max (set ps))" and mn: "np_min ?sp = Inr ?lo"
    using spne sset by (simp_all add: np_max_def np_min_def del: set_map)
  have all_lo: "p = ?lo" if "p \<in> set ps" for p
  proof -
    from that have "?lo \<le> p" "p \<le> Max (set ps)" by simp_all
    with eq show ?thesis by simp
  qed
  have zero: "float_div (ps ! j - ?lo) (Max (set ps) - ?lo) = NaN"
    if "j \<in> set (argsort ps)" for j
  proof -
    from that o have "j < length ps" by (simp add: is_argsort_def)
    then have "ps ! j \<in> set ps" by simp
    then have "ps ! j = ?lo" by (rule all_lo)
    with eq show ?thesis by (simp add: float_div_def)
  qed
  have "np_divide_scalar (map (\<lambda>p. p - ?lo) ?sp) (Max (set ps) - ?lo)
          = map (\<lambda>j. float_div (ps ! j - ?lo) (Max (set ps) - ?lo)) (argsort ps)"
    by (simp add: np_divide_scalar_def o_def)
  also have "\<dots> = map (\<lambda>j. NaN) (argsort ps)"
    by (rule map_cong [OF refl]) (rule zero)
  also have "\<dots> = replicate (length ps) NaN"
    using lo by (simp add: map_replicate_const)
  finally show dv: "np_divide_scalar (map (\<lambda>p. p - ?lo) ?sp) (Max (set ps) - ?lo)
              = replicate (length ps) NaN" .
  from eq have rng: "Max (set ps) - ?lo = 0" by simp
  from n have nlt: "\<not> length ps < 3" by simp
  show "optimise_annotations argsort minimize rnd ps max_iters C k ftol
       = (case minimize get_energy (replicate (length ps) NaN)
                 (replicate (length ps) NaN, C, k) (get_total_forces rnd) max_iters ftol
                 (constraints (replicate (length ps) NaN)) of
            Inl e \<Rightarrow> Inl e
          | Inr x \<Rightarrow> take_idx (map (\<lambda>v. float_add (float_times v 0) (Fin ?lo)) x)
                       (argsort (map real (argsort ps))))"
    unfolding optimise_annotations_def Let_def
    by (simp only: nlt if_False t1 sum.case mx mn dv) (simp only: rng)
qed

text \<open>
  Claim C8. Take three or more positions, coincident or not, a function \<open>argsort\<close> that
  sorts as \<open>np.argsort\<close> promises, and any minimiser that returns an array of the shape of
  its starting point. Then \<open>optimise_annotations\<close> returns an array \<open>out\<close> as long as the
  input. The minimiser starts from the normalised positions in ascending order: its
  coordinate \<open>r\<close> is the normalised input entry with index \<open>argsort ps ! r\<close>; and the output
  entry with that same index is the rescaled coordinate \<open>r\<close> of the minimiser's result. So
  each output entry is the optimised value of the input entry at the same index. The last
  conjunct is the composition without a minimiser: sorting and then indexing with the
  inverted order gives back the input.
\<close>

theorem output_in_input_order:
  assumes n: "3 \<le> length ps"
    and o: "is_argsort ps (argsort ps)"
    and i: "is_argsort (map real (argsort ps)) (argsort (map real (argsort ps)))"
    and m: "keeps_shape minimize"
  shows "\<exists>out x0 x.
           optimise_annotations argsort minimize rnd ps max_iters C k ftol = Inr out
         \<and> length out = length ps
         \<and> minimize get_energy x0 (x0, C, k) (get_total_forces rnd) max_iters ftol
              (constraints x0) = Inr x
         \<and> (\<forall>r<length ps.
               x0 ! r = float_div (ps ! (argsort ps ! r) - Min (set ps))
                                  (Max (set ps) - Min (set ps))
             \<and> out ! (argsort ps ! r)
                 = float_add (float_times (x ! r) (Max (set ps) - Min (set ps)))
                             (Fin (Min (set ps))))
         \<and> map (\<lambda>j. map (\<lambda>i. ps ! i) (argsort ps) ! j) (argsort (map real (argsort ps))) = ps"
proof -
  let ?order = "argsort ps"
  let ?iord = "argsort (map real ?order)"
  let ?lo = "Min (set ps)"
  let ?hi = "Max (set ps)"
  let ?x0 = "normalised ps ?order"
  from o have lo: "length ?order = length ps" by (simp add: is_argsort_def)
  have lx0: "length ?x0 = length ps" using lo by (simp add: normalised_def)
  from m obtain x where x: "minimize get_energy ?x0 (?x0, C, k) (get_total_forces rnd)
        max_iters ftol (constraints ?x0) = Inr x"
      "length x = length ?x0"
    unfolding keeps_shape_def by blast
  from x(2) lx0 have lx: "length x = length ps" by simp
  let ?out = "map (\<lambda>j. rescaled ps x ! j) ?iord"
  have res: "optimise_annotations argsort minimize rnd ps max_iters C k ftol = Inr ?out"
    using n o i x(1) lx by (rule optimise_annotations_unfolded)
  have ln: "length (rescaled ps x) = length ps" using lx by (simp add: rescaled_def)
  note u = unsort_restores [OF o i ln]
  have all: "\<forall>r<length ps.
               ?x0 ! r = float_div (ps ! (?order ! r) - ?lo) (?hi - ?lo)
             \<and> ?out ! (?order ! r) = float_add (float_times (x ! r) (?hi - ?lo)) (Fin ?lo)"
  proof (intro allI impI conjI)
    fix r assume r: "r < length ps"
    show "?x0 ! r = float_div (ps ! (?order ! r) - ?lo) (?hi - ?lo)"
      using r lo by (simp add: normalised_def)
    show "?out ! (?order ! r) = float_add (float_times (x ! r) (?hi - ?lo)) (Fin ?lo)"
      using u(3) [OF r] r lx by (simp add: rescaled_def)
  qed
  show ?thesis
    by (intro exI [of _ ?out] exI [of _ ?x0] exI [of _ x] conjI res u(2) x(1) all
          sort_then_unsort [OF o i])
qed

lemma keeps_shape_shift: "keeps_shape minimize_shift"
  by (simp add: keeps_shape_def minimize_shift_def)

theorem output_in_input_order_witness:
  "3 \<le> length [5, 1, 3 :: real]
   \<and> is_argsort [5, 1, 3] (argsort_stable [5, 1, 3])
   \<and> is_argsort (map real (argsort_stable [5, 1, 3]))
                  (argsort_stable (map real (argsort_stable [5, 1, 3])))
   \<and> keeps_shape minimize_shift
   \<and> argsort_stable [5, 1, 3] = [1, 2, 0]
   \<and> optimise_annotations argsort_stable minimize_shift no_random [5, 1, 3] 10000
         (1 / 100) (1 / 100000) (1 / 1000) = Inr [Fin 5, Fin 1, Fin 4]
   \<and> 3 \<le> length [1, 1, 1 :: real]
   \<and> is_argsort [1, 1, 1] (argsort_stable [1, 1, 1])
   \<and> is_argsort (map real (argsort_stable [1, 1, 1]))
                  (argsort_stable (map real (argsort_stable [1, 1, 1])))
   \<and> optimise_annotations argsort_stable minimize_shift no_random [1, 1, 1] 10000
         (1 / 100) (1 / 100000) (1 / 1000) = Inr [NaN, NaN, NaN]"
proof -
  have a: "argsort_stable [5, 1, 3] = [1, 2, 0]"
    by (simp add: argsort_stable_def upt_rec)
  have b: "argsort_stable (map real [1, 2, 0]) = [2, 0, 1]"
    by (simp add: argsort_stable_def upt_rec)
  have b': "argsort_stable [1, 2, 0] = [2, 0, 1]"
    by (simp add: argsort_stable_def upt_rec)
  have c: "argsort_stable [1, 1, 1] = [0, 1, 2]"
    by (simp add: argsort_stable_def upt_rec)
  have d: "argsort_stable (map real [0, 1, 2]) = [0, 1, 2]"
    by (simp add: argsort_stable_def upt_rec)
  have d': "argsort_stable [0, 1, 2] = [0, 1, 2]"
    by (simp add: argsort_stable_def upt_rec)
  have s3: "{0..<3::nat} = {0, 1, 2}" by auto
  have h1: "3 \<le> length [5, 1, 3 :: real]" by simp
  have h2: "is_argsort [5, 1, 3] (argsort_stable [5, 1, 3])"
    unfolding a by (auto simp: is_argsort_def s3)
  have h3: "is_argsort (map real (argsort_stable [5, 1, 3]))
              (argsort_stable (map real (argsort_stable [5, 1, 3])))"
    unfolding a b by (auto simp: is_argsort_def s3)
  have g1: "3 \<le> length [1, 1, 1 :: real]" by simp
  have g2: "is_argsort [1, 1, 1] (argsort_stable [1, 1, 1])"
    unfolding c by (auto simp: is_argsort_def s3)
  have g3: "is_argsort (map real (argsort_stable [1, 1, 1]))
              (argsort_stable (map real (argsort_stable [1, 1, 1])))"
    unfolding c d by (auto simp: is_argsort_def s3)
  from output_in_input_order [OF h1 h2 h3 keeps_shape_shift,
      of no_random 10000 "1 / 100" "1 / 100000" "1 / 1000"]
  obtain out x0 x where r:
      "optimise_annotations argsort_stable minimize_shift no_random [5, 1, 3] 10000
         (1 / 100) (1 / 100000) (1 / 1000) = Inr out"
      "length out = length [5, 1, 3 :: real]"
    by blast
  from output_in_input_order [OF g1 g2 g3 keeps_shape_shift,
      of no_random 10000 "1 / 100" "1 / 100000" "1 / 1000"]
  obtain out' x0' x' where r':
      "optimise_annotations argsort_stable minimize_shift no_random [1, 1, 1] 10000
         (1 / 100) (1 / 100000) (1 / 1000) = Inr out'"
      "length out' = length [1, 1, 1 :: real]"
    by blast
  have e: "optimise_annotations argsort_stable minimize_shift no_random [5, 1, 3] 10000
         (1 / 100) (1 / 100000) (1 / 1000) = Inr [Fin 5, Fin 1, Fin 4]"
    by (simp add: optimise_annotations_def a b' take_idx_def np_max_def np_min_def
          np_divide_scalar_def float_div_def minimize_shift_def Let_def)
  have e': "optimise_annotations argsort_stable minimize_shift no_random [1, 1, 1] 10000
         (1 / 100) (1 / 100000) (1 / 1000) = Inr [NaN, NaN, NaN]"
    by (simp add: optimise_annotations_def c d' take_idx_def np_max_def np_min_def
          np_divide_scalar_def float_div_def minimize_shift_def Let_def)
  from e r(1) have "out = [Fin 5, Fin 1, Fin 4]" by simp
  moreover from e' r'(1) have "out' = [NaN, NaN, NaN]" by simp
  ultimately show ?thesis
    using h1 h2 h3 g1 g2 g3 keeps_shape_shift a r(1) r'(1) by simp
qed

text \<open>
  With a minimiser that returns its starting point, the optimiser returns its input when
  the positions do not all coincide: the normalisation and the sorting are undone exactly.
\<close>

lemma idle_minimiser_returns_input:
  assumes n: "3 \<le> length ps"
    and o: "is_argsort ps (argsort ps)"
    and i: "is_argsort (map real (argsort ps)) (argsort (map real (argsort ps)))"
    and ne: "Min (set ps) \<noteq> Max (set ps)"
  shows "optimise_annotations argsort minimize_none rnd ps max_iters C k ftol
           = Inr (map Fin ps)"
proof -
  let ?order = "argsort ps"
  let ?x0 = "normalised ps ?order"
  from o have lo: "length ?order = length ps" by (simp add: is_argsort_def)
  have lx0: "length ?x0 = length ps" using lo by (simp add: normalised_def)
  have x: "minimize_none get_energy ?x0 (?x0, C, k) (get_total_forces rnd) max_iters ftol
             (constraints ?x0) = Inr ?x0"
    by (simp add: minimize_none_def)
  from ne have rng: "Max (set ps) - Min (set ps) \<noteq> 0" by simp
  have restored: "rescaled ps ?x0 = map Fin (map (\<lambda>i. ps ! i) ?order)"
    using rng by (simp add: rescaled_def normalised_def float_div_def o_def)
  have li: "length (argsort (map real ?order)) = length ps"
    using i lo by (simp add: is_argsort_def)
  have si: "set (argsort (map real ?order)) = {0..<length ps}"
    using i lo by (simp add: is_argsort_def)
  have "optimise_annotations argsort minimize_none rnd ps max_iters C k ftol
          = Inr (map (\<lambda>j. rescaled ps ?x0 ! j) (argsort (map real ?order)))"
    using n o i x lx0 by (rule optimise_annotations_unfolded)
  also have "map (\<lambda>j. rescaled ps ?x0 ! j) (argsort (map real ?order))
               = map Fin (map (\<lambda>j. map (\<lambda>i. ps ! i) ?order ! j) (argsort (map real ?order)))"
    unfolding restored map_map o_def
    by (rule map_cong [OF refl]) (use si lo in auto)
  also have "\<dots> = map Fin ps" by (simp only: sort_then_unsort [OF o i])
  finally show ?thesis .
qed

end
